theory Spec2Isabelle
  imports Complex_Main "HOL-Library.Monad_Syntax" "HOL-Library.Signed_Division"
begin

section \<open>Total Nuclear Variation solver (TNV\_core.c)\<close>

text \<open>
  The model follows \<^verbatim>\<open>src/Core/regularisers_CPU/TNV_core.c\<close>. C \<^verbatim>\<open>int\<close> and \<^verbatim>\<open>long\<close> are
  \<^typ>\<open>int\<close> without wrap-around. A computation that does not return normally (a loop
  that never ends, an access outside a buffer, a division of integers by zero) has the
  value \<^const>\<open>None\<close>; allocation and the scheduler are taken to succeed, so the calls
  of \<^verbatim>\<open>exit\<close> on their failure have no counterpart.

  C \<^verbatim>\<open>float\<close> values are modelled at two levels. Inside \<^verbatim>\<open>coefF\<close>, which the claims
  about the proximal operator quantify over every input of, a \<^verbatim>\<open>float\<close> is a number, an
  infinity or a NaN (type \<open>cfloat\<close> below): an operation overflows to an infinity where
  binary32 does, and infinities and NaNs propagate as in IEEE 754; only the rounding of
  results inside the range is left out. In the buffers and the step sizes of the
  solver a \<^verbatim>\<open>float\<close> is a \<^typ>\<open>real\<close> and arithmetic is exact (\<^verbatim>\<open>fabs\<close> is \<^const>\<open>abs\<close>):
  the values are taken to stay inside the range. Where the source divides such a value by
  zero, the model has the value \<open>x / 0 = 0\<close> of \<^typ>\<open>real\<close> instead of an infinity or a
  NaN; the tests that steer the main loop are written so that they go the way they go
  in C.
\<close>

subsection \<open>Values of type \<^verbatim>\<open>float\<close>\<close>

text \<open>
  A binary32 value is a number, \<open>+\<infinity>\<close>, \<open>-\<infinity>\<close> or a NaN. The exact result \<open>r\<close> of an
  operation on numbers is rounded to an infinity when \<open>|r| \<ge> 2^128 - 2^103\<close>, half an
  ulp above the largest \<^verbatim>\<open>float\<close>; below that the model keeps \<open>r\<close> as it is. The sign of a
  zero is not kept: a zero divisor counts as \<open>+0\<close>.
\<close>

datatype cfloat = Finite real | PInf | NInf | NaN

definition float_limit :: real where
  "float_limit = 2 ^ 128 - 2 ^ 103"

definition round_f :: "real \<Rightarrow> cfloat" where
  "round_f r = (if \<bar>r\<bar> < float_limit then Finite r else if 0 < r then PInf else NInf)"

fun fadd :: "cfloat \<Rightarrow> cfloat \<Rightarrow> cfloat" where
  "fadd (Finite a) (Finite b) = round_f (a + b)"
| "fadd NaN y = NaN"
| "fadd x NaN = NaN"
| "fadd PInf NInf = NaN"
| "fadd NInf PInf = NaN"
| "fadd PInf y = PInf"
| "fadd x PInf = PInf"
| "fadd NInf y = NInf"
| "fadd x NInf = NInf"

fun fneg :: "cfloat \<Rightarrow> cfloat" where
  "fneg (Finite a) = Finite (- a)"
| "fneg PInf = NInf"
| "fneg NInf = PInf"
| "fneg NaN = NaN"

text \<open>The sign of a product or quotient with an infinity: \<open>pos\<close> says that the infinity is \<open>+\<infinity>\<close>.\<close>

definition signed_inf :: "bool \<Rightarrow> bool \<Rightarrow> cfloat" where
  "signed_inf pos same = (if pos = same then PInf else NInf)"

fun fmul :: "cfloat \<Rightarrow> cfloat \<Rightarrow> cfloat" where
  "fmul (Finite a) (Finite b) = round_f (a * b)"
| "fmul NaN y = NaN"
| "fmul x NaN = NaN"
| "fmul PInf (Finite b) = (if b = 0 then NaN else signed_inf True (0 < b))"
| "fmul NInf (Finite b) = (if b = 0 then NaN else signed_inf False (0 < b))"
| "fmul (Finite a) PInf = (if a = 0 then NaN else signed_inf True (0 < a))"
| "fmul (Finite a) NInf = (if a = 0 then NaN else signed_inf False (0 < a))"
| "fmul PInf PInf = PInf"
| "fmul PInf NInf = NInf"
| "fmul NInf PInf = NInf"
| "fmul NInf NInf = PInf"

fun fdiv :: "cfloat \<Rightarrow> cfloat \<Rightarrow> cfloat" where
  "fdiv (Finite a) (Finite b) =
     (if b = 0 then (if a = 0 then NaN else signed_inf True (0 < a)) else round_f (a / b))"
| "fdiv NaN y = NaN"
| "fdiv x NaN = NaN"
| "fdiv (Finite a) y = Finite 0"
| "fdiv PInf (Finite b) = signed_inf True (0 \<le> b)"
| "fdiv NInf (Finite b) = signed_inf False (0 \<le> b)"
| "fdiv x y = NaN"

text \<open>\<^verbatim>\<open>sqrtf\<close> and \<^verbatim>\<open>fabs\<close>.\<close>

fun fsqrt :: "cfloat \<Rightarrow> cfloat" where
  "fsqrt (Finite a) = (if a < 0 then NaN else round_f (sqrt a))"
| "fsqrt PInf = PInf"
| "fsqrt NInf = NaN"
| "fsqrt NaN = NaN"

fun fabs :: "cfloat \<Rightarrow> cfloat" where
  "fabs (Finite a) = Finite \<bar>a\<bar>"
| "fabs PInf = PInf"
| "fabs NInf = PInf"
| "fabs NaN = NaN"

text \<open>The comparisons \<^verbatim>\<open><\<close> and \<^verbatim>\<open>!=\<close>; a comparison with a NaN is false, \<^verbatim>\<open>!=\<close> true.\<close>

fun fless :: "cfloat \<Rightarrow> cfloat \<Rightarrow> bool" where
  "fless (Finite a) (Finite b) = (a < b)"
| "fless NaN y = False"
| "fless x NaN = False"
| "fless PInf y = False"
| "fless x PInf = True"
| "fless x NInf = False"
| "fless NInf y = True"

definition f_ne :: "cfloat \<Rightarrow> cfloat \<Rightarrow> bool" where
  "f_ne a b = (a = NaN \<or> b = NaN \<or> a \<noteq> b)"

text \<open>
  The operators of C on \<open>cfloat\<close>: \<open>a + b\<close>, \<open>a - b\<close>, \<open>a * b\<close>, \<open>a / b\<close>, \<open>\<bar>a\<bar>\<close> and
  \<open>a < b\<close> (so \<open>a > b\<close>); \<open>0\<close> and \<open>1\<close> are the constants \<^verbatim>\<open>0.0f\<close> and \<^verbatim>\<open>1.0f\<close>.
\<close>

instantiation cfloat :: "{zero, one, plus, minus, uminus, times, inverse, abs, ord}"
begin

definition zero_cfloat :: cfloat where
  "zero_cfloat = Finite 0"

definition one_cfloat :: cfloat where
  "one_cfloat = Finite 1"

definition plus_cfloat :: "cfloat \<Rightarrow> cfloat \<Rightarrow> cfloat" where
  "plus_cfloat a b = fadd a b"

definition uminus_cfloat :: "cfloat \<Rightarrow> cfloat" where
  "uminus_cfloat a = fneg a"

definition minus_cfloat :: "cfloat \<Rightarrow> cfloat \<Rightarrow> cfloat" where
  "minus_cfloat a b = fadd a (fneg b)"

definition times_cfloat :: "cfloat \<Rightarrow> cfloat \<Rightarrow> cfloat" where
  "times_cfloat a b = fmul a b"

definition divide_cfloat :: "cfloat \<Rightarrow> cfloat \<Rightarrow> cfloat" where
  "divide_cfloat a b = fdiv a b"

definition inverse_cfloat :: "cfloat \<Rightarrow> cfloat" where
  "inverse_cfloat a = fdiv (Finite 1) a"

definition abs_cfloat :: "cfloat \<Rightarrow> cfloat" where
  "abs_cfloat a = fabs a"

definition less_cfloat :: "cfloat \<Rightarrow> cfloat \<Rightarrow> bool" where
  "less_cfloat a b = fless a b"

definition less_eq_cfloat :: "cfloat \<Rightarrow> cfloat \<Rightarrow> bool" where
  "less_eq_cfloat a b = (fless a b \<or> \<not> f_ne a b)"

instance ..

end

subsection \<open>Constants and macros of the header\<close>

text \<open>
  \<^verbatim>\<open>fTiny\<close>, \<^verbatim>\<open>fLarge\<close>, \<^verbatim>\<open>INFNORM\<close> and \<^verbatim>\<open>MAX\<close> are macros of \<^verbatim>\<open>TNV_core.h\<close>, which is
  not part of the sources at hand; the functions below take them as a parameter.
  \<^verbatim>\<open>MAX\<close> is the larger of two numbers or infinities. What it gives when an argument is
  a NaN depends on how the macro is spelled (\<^verbatim>\<open>((a)>(b)?(a):(b))\<close> gives \<open>b\<close>,
  \<^verbatim>\<open>((a)<(b)?(b):(a))\<close> gives \<open>a\<close>): that is the parameter \<open>MAX_NaN\<close>.
\<close>

record tnv_consts =
  fTiny :: real
  fLarge :: real
  INFNORM :: int
  MAX_NaN :: "cfloat \<Rightarrow> cfloat \<Rightarrow> cfloat"

definition MAX_C :: "tnv_consts \<Rightarrow> cfloat \<Rightarrow> cfloat \<Rightarrow> cfloat" where
  "MAX_C c a b = (if a = NaN \<or> b = NaN then MAX_NaN c a b else if a < b then b else a)"

subsection \<open>The proximal operator \<^verbatim>\<open>coefF\<close> in exact arithmetic\<close>

text \<open>
  The stages of \<^verbatim>\<open>coefF\<close> on real numbers, with \<^verbatim>\<open>MAX\<close> the maximum \<^const>\<open>max\<close>: what
  the function computes as long as no result leaves the range of \<^verbatim>\<open>float\<close> (section
  ``Inside the range \<^verbatim>\<open>coefF\<close> computes in exact arithmetic'').
\<close>

text \<open>Lines 37--42: eigenvalues of the symmetric matrix \<open>(M1 M2; M2 M3)\<close>, clamped at zero.\<close>

definition eigenvalues :: "real \<Rightarrow> real \<Rightarrow> real \<Rightarrow> real \<times> real" where
  "eigenvalues M1 M2 M3 =
     (let T = M1 + M3;
          D = M1 * M3 - M2 * M2;
          det = sqrt (max ((T * T / 4) - D) 0);
          eig1 = max ((T / 2) + det) 0;
          eig2 = max ((T / 2) - det) 0
      in (eig1, eig2))"

text \<open>Lines 43--44: the singular values \<^verbatim>\<open>sig1\<close>, \<^verbatim>\<open>sig2\<close>.\<close>

definition singular_values :: "real \<Rightarrow> real \<Rightarrow> real \<Rightarrow> real \<times> real" where
  "singular_values M1 M2 M3 =
     (case eigenvalues M1 M2 M3 of (eig1, eig2) \<Rightarrow> (sqrt eig1, sqrt eig2))"

text \<open>Lines 46--82: the normalised eigenvectors \<open>(V1, V2, V3, V4)\<close>.\<close>

definition eigenvectors :: "tnv_consts \<Rightarrow> real \<Rightarrow> real \<Rightarrow> real \<Rightarrow> real \<times> real \<times> real \<times> real" where
  "eigenvectors c M1 M2 M3 =
     (case eigenvalues M1 M2 M3 of (eig1, eig2) \<Rightarrow>
        if M2 \<noteq> 0 then
          (let v0 = M2;
               v1 = eig1 - M3;
               v2 = eig2 - M3;
               mu1 = sqrt (v0 * v0 + v1 * v1);
               mu2 = sqrt (v0 * v0 + v2 * v2);
               V1 = (if mu1 > fTiny c then v1 / mu1 else 0);
               V3 = (if mu1 > fTiny c then v0 / mu1 else 0);
               V2 = (if mu2 > fTiny c then v2 / mu2 else 0);
               V4 = (if mu2 > fTiny c then v0 / mu2 else 0)
           in (V1, V2, V3, V4))
        else if M1 > M3 then (1, 0, 0, 1)
        else (0, 1, 1, 0))"

text \<open>
  Lines 101--119: the water-filling loop of the l1 projection. The state is
  \<^verbatim>\<open>proj[0]\<close>, \<^verbatim>\<open>proj[1]\<close>, \<^verbatim>\<open>sum\<close> and \<^verbatim>\<open>shrinkfactor\<close>; \<^verbatim>\<open>num\<close> is recomputed in
  every pass. The result is the final \<^verbatim>\<open>proj\<close>; a loop that runs forever is \<^const>\<open>None\<close>.
\<close>

partial_function (option) l1_projection :: "real \<Rightarrow> real \<Rightarrow> real \<Rightarrow> real \<Rightarrow> (real \<times> real) option" where
  "l1_projection proj0 proj1 sum_p shrinkfactor =
     (if sum_p > 1 then
        (let p0 = max (proj0 - shrinkfactor) 0;
             p1 = max (proj1 - shrinkfactor) 0;
             sum_n = 0 + \<bar>p0\<bar> + \<bar>p1\<bar>;
             num = (if p0 \<noteq> 0 then 1 else 0) + (if p1 \<noteq> 0 then 1 else (0::int))
         in if num > 0 then l1_projection p0 p1 sum_n ((sum_n - 1) / real_of_int num)
            else Some (p0, p1))
      else Some (proj0, proj1))"

text \<open>Lines 84--124: \<^verbatim>\<open>sig1_upd\<close> and \<^verbatim>\<open>sig2_upd\<close>, by the shrinkage rule \<open>p\<close> selects.\<close>

definition prox_diag :: "tnv_consts \<Rightarrow> real \<Rightarrow> real \<Rightarrow> real \<Rightarrow> int \<Rightarrow> (real \<times> real) option" where
  "prox_diag c sig1 sig2 sigma p =
     (let divsigma = 1 / sigma in
      if p = 1 then Some (max (sig1 - divsigma) 0, max (sig2 - divsigma) 0)
      else if p = INFNORM c then
        (case l1_projection (sigma * \<bar>sig1\<bar>) (sigma * \<bar>sig2\<bar>) (fLarge c) 0 of
           None \<Rightarrow> None
         | Some (proj0, proj1) \<Rightarrow> Some (sig1 - divsigma * proj0, sig2 - divsigma * proj1))
      else Some (0, 0))"

text \<open>Lines 30--137 in exact arithmetic: the stages put together.\<close>

definition coefF_exact :: "tnv_consts \<Rightarrow> real \<Rightarrow> real \<Rightarrow> real \<Rightarrow> real \<Rightarrow> int \<Rightarrow> (real \<times> real \<times> real) option" where
  "coefF_exact c M1 M2 M3 sigma p =
     (case singular_values M1 M2 M3 of (sig1, sig2) \<Rightarrow>
      case eigenvectors c M1 M2 M3 of (V1, V2, V3, V4) \<Rightarrow>
      case prox_diag c sig1 sig2 sigma p of
        None \<Rightarrow> None
      | Some (s1, s2) \<Rightarrow>
          (let sig1_upd = (if sig1 > fTiny c then s1 / sig1 else s1);
               sig2_upd = (if sig2 > fTiny c then s2 / sig2 else s2)
           in Some (sig1_upd * V1 * V1 + sig2_upd * V2 * V2,
                    sig1_upd * V1 * V3 + sig2_upd * V2 * V4,
                    sig1_upd * V3 * V3 + sig2_upd * V4 * V4)))"

subsection \<open>The proximal operator \<^verbatim>\<open>coefF\<close>\<close>

text \<open>Lines 37--42 on \<^verbatim>\<open>float\<close> values.\<close>

definition eigenvalues_float :: "tnv_consts \<Rightarrow> cfloat \<Rightarrow> cfloat \<Rightarrow> cfloat \<Rightarrow> cfloat \<times> cfloat" where
  "eigenvalues_float c M1 M2 M3 =
     (let T = M1 + M3;
          D = M1 * M3 - M2 * M2;
          det = fsqrt (MAX_C c ((T * T / Finite 4) - D) 0);
          eig1 = MAX_C c ((T / Finite 2) + det) 0;
          eig2 = MAX_C c ((T / Finite 2) - det) 0
      in (eig1, eig2))"

text \<open>Lines 43--44.\<close>

definition singular_values_float :: "tnv_consts \<Rightarrow> cfloat \<Rightarrow> cfloat \<Rightarrow> cfloat \<Rightarrow> cfloat \<times> cfloat" where
  "singular_values_float c M1 M2 M3 =
     (case eigenvalues_float c M1 M2 M3 of (eig1, eig2) \<Rightarrow> (fsqrt eig1, fsqrt eig2))"

text \<open>Lines 46--82.\<close>

definition eigenvectors_float ::
  "tnv_consts \<Rightarrow> cfloat \<Rightarrow> cfloat \<Rightarrow> cfloat \<Rightarrow> cfloat \<times> cfloat \<times> cfloat \<times> cfloat" where
  "eigenvectors_float c M1 M2 M3 =
     (case eigenvalues_float c M1 M2 M3 of (eig1, eig2) \<Rightarrow>
        if f_ne M2 0 then
          (let v0 = M2;
               v1 = eig1 - M3;
               v2 = eig2 - M3;
               mu1 = fsqrt (v0 * v0 + v1 * v1);
               mu2 = fsqrt (v0 * v0 + v2 * v2);
               V1 = (if mu1 > Finite (fTiny c) then v1 / mu1 else 0);
               V3 = (if mu1 > Finite (fTiny c) then v0 / mu1 else 0);
               V2 = (if mu2 > Finite (fTiny c) then v2 / mu2 else 0);
               V4 = (if mu2 > Finite (fTiny c) then v0 / mu2 else 0)
           in (V1, V2, V3, V4))
        else if M1 > M3 then (1, 0, 0, 1)
        else (0, 1, 1, 0))"

text \<open>
  Lines 101--119: the water-filling loop; a loop that runs forever is \<^const>\<open>None\<close>.
\<close>

partial_function (option) l1_projection_float ::
  "tnv_consts \<Rightarrow> cfloat \<Rightarrow> cfloat \<Rightarrow> cfloat \<Rightarrow> cfloat \<Rightarrow> (cfloat \<times> cfloat) option" where
  "l1_projection_float c proj0 proj1 sum_p shrinkfactor =
     (if sum_p > 1 then
        (let p0 = MAX_C c (proj0 - shrinkfactor) 0;
             p1 = MAX_C c (proj1 - shrinkfactor) 0;
             sum_n = 0 + \<bar>p0\<bar> + \<bar>p1\<bar>;
             num = (if f_ne p0 0 then 1 else 0) + (if f_ne p1 0 then 1 else (0::int))
         in if num > 0
            then l1_projection_float c p0 p1 sum_n ((sum_n - 1) / Finite (real_of_int num))
            else Some (p0, p1))
      else Some (proj0, proj1))"

text \<open>Lines 84--124.\<close>

definition prox_diag_float ::
  "tnv_consts \<Rightarrow> cfloat \<Rightarrow> cfloat \<Rightarrow> cfloat \<Rightarrow> int \<Rightarrow> (cfloat \<times> cfloat) option" where
  "prox_diag_float c sig1 sig2 sigma p =
     (let divsigma = 1 / sigma in
      if p = 1 then Some (MAX_C c (sig1 - divsigma) 0, MAX_C c (sig2 - divsigma) 0)
      else if p = INFNORM c then
        (case l1_projection_float c (sigma * \<bar>sig1\<bar>) (sigma * \<bar>sig2\<bar>) (Finite (fLarge c)) 0 of
           None \<Rightarrow> None
         | Some (proj0, proj1) \<Rightarrow> Some (sig1 - divsigma * proj0, sig2 - divsigma * proj1))
      else Some (0, 0))"

text \<open>Lines 30--137: the whole function; the result is the array \<open>t\<close>.\<close>

definition coefF ::
  "tnv_consts \<Rightarrow> cfloat \<Rightarrow> cfloat \<Rightarrow> cfloat \<Rightarrow> cfloat \<Rightarrow> int \<Rightarrow> int \<Rightarrow> int
     \<Rightarrow> (cfloat \<times> cfloat \<times> cfloat) option" where
  "coefF c M1 M2 M3 sigma p q r =
     (case singular_values_float c M1 M2 M3 of (sig1, sig2) \<Rightarrow>
      case eigenvectors_float c M1 M2 M3 of (V1, V2, V3, V4) \<Rightarrow>
      case prox_diag_float c sig1 sig2 sigma p of
        None \<Rightarrow> None
      | Some (s1, s2) \<Rightarrow>
          (let sig1_upd = (if sig1 > Finite (fTiny c) then s1 / sig1 else s1);
               sig2_upd = (if sig2 > Finite (fTiny c) then s2 / sig2 else s2)
           in Some (sig1_upd * V1 * V1 + sig2_upd * V2 * V2,
                    sig1_upd * V1 * V3 + sig2_upd * V2 * V4,
                    sig1_upd * V3 * V3 + sig2_upd * V4 * V4)))"

subsection \<open>Buffers and loops\<close>

text \<open>
  A buffer obtained from \<^verbatim>\<open>malloc\<close> is a list of cells; an index is a C integer. An access
  outside the buffer (or through a null pointer, the empty list) does not return.
\<close>

type_synonym buffer = "real list"

definition rd :: "buffer \<Rightarrow> int \<Rightarrow> real option" where
  "rd b i = (if 0 \<le> i \<and> i < int (length b) then Some (b ! nat i) else None)"

definition wr :: "buffer \<Rightarrow> int \<Rightarrow> real \<Rightarrow> buffer option" where
  "wr b i v = (if 0 \<le> i \<and> i < int (length b) then Some (b[nat i := v]) else None)"

text \<open>\<^verbatim>\<open>memset(b, 0, n * sizeof(float))\<close>: the first \<open>n\<close> cells become zero.\<close>

definition memset0 :: "buffer \<Rightarrow> int \<Rightarrow> buffer option" where
  "memset0 b n =
     (if 0 \<le> n \<and> n \<le> int (length b) then Some (replicate (nat n) 0 @ drop (nat n) b)
      else None)"

text \<open>
  \<^verbatim>\<open>for (i = 0; i < n; i++) body\<close> is \<open>for_loop [0..n - 1] body\<close>: the body runs on each
  index in turn and the loop stops at the first pass that does not return.
\<close>

fun for_loop :: "int list \<Rightarrow> (int \<Rightarrow> 's \<Rightarrow> 's option) \<Rightarrow> 's \<Rightarrow> 's option" where
  "for_loop [] body s = Some s"
| "for_loop (i # is) body s =
     (case body i s of None \<Rightarrow> None | Some s' \<Rightarrow> for_loop is body s')"

subsection \<open>The structures \<^verbatim>\<open>tnv_thread_t\<close> and \<^verbatim>\<open>tnv_context_t\<close>\<close>

text \<open>
  The field \<^verbatim>\<open>f\<close> of a C structure is the record field \<open>f_C\<close>, so that the local
  variables of the functions, which mostly carry the fields' names, keep theirs.
\<close>

record tnv_thread_t =
  offY_C :: int
  stepY_C :: int
  copY_C :: int
  Input_C :: buffer
  u_C :: buffer
  qx_C :: buffer
  qy_C :: buffer
  gradx_C :: buffer
  grady_C :: buffer
  div_C :: buffer
  div0_C :: buffer
  udiff0_C :: buffer
  udiff_C :: buffer
  resprimal_C :: real
  resdual_C :: real
  unorm_C :: real
  qnorm_C :: real
  product_C :: real

text \<open>
  \<^verbatim>\<open>InputT\<close> and \<^verbatim>\<open>uT\<close> point into the caller's memory; a pointer to \<^verbatim>\<open>float\<close> is the
  index of a cell of that memory.
\<close>

record tnv_context_t =
  threads_C :: int
  thr_ctx_C :: "tnv_thread_t list"
  InputT_C :: int
  uT_C :: int
  dimX_C :: int
  dimY_C :: int
  dimZ_C :: int
  padZ_C :: int
  lambda_C :: real
  sigma_C :: real
  tau_C :: real
  theta_C :: real

subsection \<open>The process: globals, caller's memory, scheduler\<close>

text \<open>
  The scheduler \<^verbatim>\<open>hw_sched\<close> is an external collaborator. It is modelled as a pool that
  runs a task once for every worker, in the order of the workers' indices, and reports
  no error; the functions it is handed only touch their own \<^verbatim>\<open>tnv_thread_t\<close> and,
  for \<^verbatim>\<open>tnv_finish\<close>, their own rows of \<^verbatim>\<open>uT\<close>, so the order of the workers has no
  bearing on the result. What the program hands to the scheduler and the warning it
  writes to \<^verbatim>\<open>stderr\<close> are recorded in \<open>trace\<close>. The function \<^verbatim>\<open>tnv_free\<close> is handed to
  the scheduler nowhere in the file and has no counterpart here.
\<close>

datatype task = Tnv_init | Tnv_start | Tnv_step | Tnv_restore | Tnv_finish

datatype event = Scheduled task | Backtrack_warning

text \<open>
  The globals \<^verbatim>\<open>sched\<close> (\<^const>\<open>None\<close> is \<^verbatim>\<open>NULL\<close>, otherwise the number of workers of the
  pool) and \<^verbatim>\<open>tnv_ctx\<close>, with the memory of the caller.
\<close>

record process =
  sched :: "int option"
  tnv_ctx :: tnv_context_t
  mem :: "int \<Rightarrow> real"
  trace :: "event list"

text \<open>
  What the program asks of its environment: the number of processors
  \<^verbatim>\<open>hw_sched_get_cpu_count()\<close> reports, and the contents of freshly allocated memory
  (\<^verbatim>\<open>malloc\<close> does not initialise it), by allocation and cell.
\<close>

record environment =
  cpu_count :: int
  heap_junk :: "nat \<Rightarrow> nat \<Rightarrow> real"

definition malloc :: "environment \<Rightarrow> nat \<Rightarrow> int \<Rightarrow> buffer option" where
  "malloc env a n = (if 0 \<le> n then Some (map (heap_junk env a) [0..<nat n]) else None)"

text \<open>A task runs on the \<^verbatim>\<open>tnv_thread_t\<close> at \<^verbatim>\<open>tnv_ctx->thr_ctx + device_id\<close>.\<close>

definition on_thread ::
  "(tnv_context_t \<Rightarrow> tnv_thread_t \<Rightarrow> tnv_thread_t option) \<Rightarrow> process \<Rightarrow> int \<Rightarrow> process option" where
  "on_thread f p device_id =
     (let c = tnv_ctx p in
      if 0 \<le> device_id \<and> device_id < int (length (thr_ctx_C c)) then
        (case f c (thr_ctx_C c ! nat device_id) of
           None \<Rightarrow> None
         | Some t \<Rightarrow> Some (p\<lparr>tnv_ctx := c\<lparr>thr_ctx_C := (thr_ctx_C c)[nat device_id := t]\<rparr>\<rparr>))
      else None)"

text \<open>
  \<^verbatim>\<open>hw_sched_schedule_thread_task\<close> followed by \<^verbatim>\<open>hw_sched_wait_task\<close>: the task runs
  for every \<^verbatim>\<open>device_id\<close> of the pool.
\<close>

definition schedule :: "task \<Rightarrow> (process \<Rightarrow> int \<Rightarrow> process option) \<Rightarrow> process \<Rightarrow> process option" where
  "schedule name f p =
     (case sched p of
        None \<Rightarrow> None
      | Some n \<Rightarrow> for_loop [0..n - 1] (\<lambda>device_id q. f q device_id)
                   (p\<lparr>trace := trace p @ [Scheduled name]\<rparr>))"

subsection \<open>\<^verbatim>\<open>tnv_init\<close>: allocation (lines 181--217)\<close>

definition tnv_init_thread :: "environment \<Rightarrow> tnv_context_t \<Rightarrow> tnv_thread_t \<Rightarrow> tnv_thread_t option" where
  "tnv_init_thread env c ctx =
     (let dimX = dimX_C c; padZ = padZ_C c; stepY = stepY_C ctx;
          DimTotal = dimX * stepY * padZ;
          Dim1Total = dimX * (stepY + 1) * padZ;
          DimRow = dimX * padZ
      in do {
        b0 \<leftarrow> malloc env 0 Dim1Total;
        b1 \<leftarrow> malloc env 1 Dim1Total;
        b2 \<leftarrow> malloc env 2 DimTotal;
        b3 \<leftarrow> malloc env 3 DimTotal;
        b4 \<leftarrow> malloc env 4 DimTotal;
        b5 \<leftarrow> malloc env 5 DimTotal;
        b6 \<leftarrow> malloc env 6 Dim1Total;
        b7 \<leftarrow> malloc env 7 DimRow;
        b8 \<leftarrow> malloc env 8 DimRow;
        b9 \<leftarrow> malloc env 9 DimRow;
        Some (ctx\<lparr>Input_C := b0, u_C := b1, qx_C := b2, qy_C := b3, gradx_C := b4,
                  grady_C := b5, div_C := b6, div0_C := b7, udiff0_C := b8, udiff_C := b9\<rparr>)
      })"

definition tnv_init :: "environment \<Rightarrow> process \<Rightarrow> int \<Rightarrow> process option" where
  "tnv_init env p device_id = on_thread (tnv_init_thread env) p device_id"

subsection \<open>\<^verbatim>\<open>tnv_start\<close>: ingest (lines 219--254)\<close>

text \<open>Lines 247--248, the body of the three loops.\<close>

definition tnv_start_copy ::
  "(int \<Rightarrow> real) \<Rightarrow> tnv_context_t \<Rightarrow> int \<Rightarrow> int \<Rightarrow> int \<Rightarrow> tnv_thread_t \<Rightarrow> tnv_thread_t option" where
  "tnv_start_copy m c k j i ctx =
     (let dimX = dimX_C c; dimY = dimY_C c; padZ = padZ_C c; offY = offY_C ctx
      in do {
        b0 \<leftarrow> wr (Input_C ctx) (j * dimX * padZ + i * padZ + k)
                (m (InputT_C c + (k * dimX * dimY + (j + offY) * dimX + i)));
        b1 \<leftarrow> wr (u_C ctx) (j * dimX * padZ + i * padZ + k)
                (m (uT_C c + (k * dimX * dimY + (j + offY) * dimX + i)));
        Some (ctx\<lparr>Input_C := b0, u_C := b1\<rparr>)
      })"

definition tnv_start_thread :: "(int \<Rightarrow> real) \<Rightarrow> tnv_context_t \<Rightarrow> tnv_thread_t \<Rightarrow> tnv_thread_t option" where
  "tnv_start_thread m c ctx =
     (let dimX = dimX_C c; dimZ = dimZ_C c; padZ = padZ_C c;
          stepY = stepY_C ctx; copY = copY_C ctx;
          DimTotal = dimX * stepY * padZ;
          Dim1Total = dimX * copY * padZ
      in do {
        b1 \<leftarrow> memset0 (u_C ctx) Dim1Total;
        b2 \<leftarrow> memset0 (qx_C ctx) DimTotal;
        b3 \<leftarrow> memset0 (qy_C ctx) DimTotal;
        b4 \<leftarrow> memset0 (gradx_C ctx) DimTotal;
        b5 \<leftarrow> memset0 (grady_C ctx) DimTotal;
        b6 \<leftarrow> memset0 (div_C ctx) Dim1Total;
        for_loop [0..dimZ - 1] (\<lambda>k.
          for_loop [0..copY - 1] (\<lambda>j.
            for_loop [0..dimX - 1] (\<lambda>i. tnv_start_copy m c k j i)))
          (ctx\<lparr>u_C := b1, qx_C := b2, qy_C := b3, gradx_C := b4, grady_C := b5, div_C := b6\<rparr>)
      })"

definition tnv_start :: "process \<Rightarrow> int \<Rightarrow> process option" where
  "tnv_start p device_id = on_thread (tnv_start_thread (mem p)) p device_id"

subsection \<open>\<^verbatim>\<open>tnv_finish\<close>: write-back (lines 256--278)\<close>

text \<open>Line 272: one cell of \<^verbatim>\<open>uT\<close> is written.\<close>

definition tnv_finish_copy ::
  "tnv_context_t \<Rightarrow> tnv_thread_t \<Rightarrow> int \<Rightarrow> int \<Rightarrow> int \<Rightarrow> (int \<Rightarrow> real) \<Rightarrow> (int \<Rightarrow> real) option" where
  "tnv_finish_copy c ctx k j i m =
     (let dimX = dimX_C c; dimY = dimY_C c; padZ = padZ_C c; offY = offY_C ctx
      in do {
        v \<leftarrow> rd (u_C ctx) (j * dimX * padZ + i * padZ + k);
        Some (m(uT_C c + (k * dimX * dimY + (j + offY) * dimX + i) := v))
      })"

definition tnv_finish :: "process \<Rightarrow> int \<Rightarrow> process option" where
  "tnv_finish p device_id =
     (let c = tnv_ctx p in
      if 0 \<le> device_id \<and> device_id < int (length (thr_ctx_C c)) then
        (let ctx = thr_ctx_C c ! nat device_id;
             dimX = dimX_C c; dimZ = dimZ_C c; stepY = stepY_C ctx
         in do {
           m \<leftarrow> for_loop [0..dimZ - 1] (\<lambda>k.
                  for_loop [0..stepY - 1] (\<lambda>j.
                    for_loop [0..dimX - 1] (\<lambda>i. tnv_finish_copy c ctx k j i))) (mem p);
           Some (p\<lparr>mem := m\<rparr>)
         })
      else None)"

subsection \<open>\<^verbatim>\<open>tnv_restore\<close>: roll-back (lines 281--303)\<close>

definition tnv_restore_thread :: "tnv_context_t \<Rightarrow> tnv_thread_t \<Rightarrow> tnv_thread_t option" where
  "tnv_restore_thread c ctx =
     (let dimX = dimX_C c; padZ = padZ_C c;
          stepY = stepY_C ctx; copY = copY_C ctx;
          DimTotal = dimX * stepY * padZ;
          Dim1Total = dimX * copY * padZ
      in do {
        b1 \<leftarrow> memset0 (u_C ctx) Dim1Total;
        b2 \<leftarrow> memset0 (qx_C ctx) DimTotal;
        b3 \<leftarrow> memset0 (qy_C ctx) DimTotal;
        b4 \<leftarrow> memset0 (gradx_C ctx) DimTotal;
        b5 \<leftarrow> memset0 (grady_C ctx) DimTotal;
        b6 \<leftarrow> memset0 (div_C ctx) Dim1Total;
        Some (ctx\<lparr>u_C := b1, qx_C := b2, qy_C := b3, gradx_C := b4, grady_C := b5, div_C := b6\<rparr>)
      })"

definition tnv_restore :: "process \<Rightarrow> int \<Rightarrow> process option" where
  "tnv_restore p device_id = on_thread tnv_restore_thread p device_id"

subsection \<open>\<^verbatim>\<open>tnv_step\<close>: one iteration on a partition (lines 306--444)\<close>

text \<open>
  The variable-length arrays of the function. Every cell is written before it is
  read, so their initial contents do not matter.
\<close>

record scratch =
  gradxdiff :: buffer
  gradydiff :: buffer
  ubarx :: buffer
  ubary :: buffer
  udiff_next :: buffer

text \<open>Lines 358--368: the primal update of the first row.\<close>

definition step_first_row :: "tnv_context_t \<Rightarrow> int \<Rightarrow> int \<Rightarrow> tnv_thread_t \<Rightarrow> tnv_thread_t option" where
  "step_first_row c i k ctx =
     (let padZ = padZ_C c; lambda = lambda_C c; tau = tau_C c;
          taulambda = tau * lambda;
          constant = 1 + taulambda;
          l = i * padZ + k
      in do {
        u_l \<leftarrow> rd (u_C ctx) l;
        div_l \<leftarrow> rd (div_C ctx) l;
        Input_l \<leftarrow> rd (Input_C ctx) l;
        let u_upd = (u_l + tau * div_l + taulambda * Input_l) / constant;
        let udiff = u_l - u_upd;
        b1 \<leftarrow> wr (udiff_C ctx) l udiff;
        b2 \<leftarrow> wr (udiff0_C ctx) l udiff;
        b3 \<leftarrow> wr (div0_C ctx) l div_l;
        b4 \<leftarrow> wr (u_C ctx) l u_upd;
        Some (ctx\<lparr>udiff_C := b1, udiff0_C := b2, div0_C := b3, u_C := b4\<rparr>)
      })"

text \<open>
  Lines 378--397: the first loop over the channels of the pixel \<open>(j, i)\<close>; the state is
  the partition, the arrays and \<open>(M1, M2, M3)\<close>.
\<close>

definition step_gradient ::
  "tnv_context_t \<Rightarrow> int \<Rightarrow> int \<Rightarrow> int \<Rightarrow> tnv_thread_t \<times> scratch \<times> real \<times> real \<times> real
     \<Rightarrow> (tnv_thread_t \<times> scratch \<times> real \<times> real \<times> real) option" where
  "step_gradient c j i k = (\<lambda>(ctx, a, M1, M2, M3).
     (let dimX = dimX_C c; padZ = padZ_C c; copY = copY_C ctx;
          lambda = lambda_C c; sigma = sigma_C c; tau = tau_C c; theta = theta_C c;
          taulambda = tau * lambda;
          divsigma = 1 / sigma;
          constant = 1 + taulambda;
          l = (j * dimX + i) * padZ;
          m = dimX * padZ
      in do {
        u_m \<leftarrow> rd (u_C ctx) (l + k + m);
        div_m \<leftarrow> rd (div_C ctx) (l + k + m);
        Input_m \<leftarrow> rd (Input_C ctx) (l + k + m);
        let u_upd = (u_m + tau * div_m + taulambda * Input_m) / constant;
        udn \<leftarrow> wr (udiff_next a) k (u_m - u_upd);
        u \<leftarrow> wr (u_C ctx) (l + k + m) u_upd;
        gradx_upd \<leftarrow> (if i = dimX - 1 then Some 0
                      else do { x \<leftarrow> rd u (l + k + padZ); y \<leftarrow> rd u (l + k); Some (x - y) });
        grady_upd \<leftarrow> (if j = copY - 1 then Some 0
                      else do { x \<leftarrow> rd u (l + k + m); y \<leftarrow> rd u (l + k); Some (x - y) });
        gradx_l \<leftarrow> rd (gradx_C ctx) (l + k);
        grady_l \<leftarrow> rd (grady_C ctx) (l + k);
        let gxd = gradx_l - gradx_upd;
        let gyd = grady_l - grady_upd;
        gxds \<leftarrow> wr (gradxdiff a) k gxd;
        gyds \<leftarrow> wr (gradydiff a) k gyd;
        gradx \<leftarrow> wr (gradx_C ctx) (l + k) gradx_upd;
        grady \<leftarrow> wr (grady_C ctx) (l + k) grady_upd;
        let ubx = gradx_upd - theta * gxd;
        let uby = grady_upd - theta * gyd;
        ubxs \<leftarrow> wr (ubarx a) k ubx;
        ubys \<leftarrow> wr (ubary a) k uby;
        qx_l \<leftarrow> rd (qx_C ctx) (l + k);
        qy_l \<leftarrow> rd (qy_C ctx) (l + k);
        let vx = ubx + divsigma * qx_l;
        let vy = uby + divsigma * qy_l;
        Some (ctx\<lparr>u_C := u, gradx_C := gradx, grady_C := grady\<rparr>,
              a\<lparr>gradxdiff := gxds, gradydiff := gyds, ubarx := ubxs, ubary := ubys,
                udiff_next := udn\<rparr>,
              M1 + (vx * vx), M2 + (vx * vy), M3 + (vy * vy))
      }))"

text \<open>
  Line 427: whether the pixel's term enters the primal residual of the partition.
\<close>

definition resprimal_counted :: "int \<Rightarrow> int \<Rightarrow> bool" where
  "resprimal_counted offY j = (offY = 0 \<or> j > 0)"

text \<open>
  Lines 402--431: the second loop over the channels of the pixel \<open>(j, i)\<close>, with the
  matrix \<open>t\<close> of \<^verbatim>\<open>coefF\<close>. The local accumulators \<^verbatim>\<open>resprimal\<close>, \<^verbatim>\<open>resdual\<close>,
  \<^verbatim>\<open>product\<close>, \<^verbatim>\<open>unorm\<close> and \<^verbatim>\<open>qnorm\<close> are kept in the fields of the partition they
  are stored to at the end (lines 437--441); nothing reads those fields in between.
\<close>

definition step_dual ::
  "tnv_context_t \<Rightarrow> int \<Rightarrow> int \<Rightarrow> real \<times> real \<times> real \<Rightarrow> scratch \<Rightarrow> int \<Rightarrow> tnv_thread_t
     \<Rightarrow> tnv_thread_t option" where
  "step_dual c j i t a k ctx = (case t of (t0, t1, t2) \<Rightarrow>
     (let dimX = dimX_C c; padZ = padZ_C c; offY = offY_C ctx; copY = copY_C ctx;
          sigma = sigma_C c; tau = tau_C c;
          divtau = 1 / tau;
          divsigma = 1 / sigma;
          l = (j * dimX + i) * padZ;
          m = dimX * padZ
      in do {
        ubx \<leftarrow> rd (ubarx a) k;
        uby \<leftarrow> rd (ubary a) k;
        qx_l \<leftarrow> rd (qx_C ctx) (l + k);
        qy_l \<leftarrow> rd (qy_C ctx) (l + k);
        let vx = ubx + divsigma * qx_l;
        let vy = uby + divsigma * qy_l;
        let gx_upd = vx * t0 + vy * t1;
        let gy_upd = vx * t1 + vy * t2;
        let qxdiff = sigma * (ubx - gx_upd);
        let qydiff = sigma * (uby - gy_upd);
        qx \<leftarrow> wr (qx_C ctx) (l + k) (qx_l + qxdiff);
        qy \<leftarrow> wr (qy_C ctx) (l + k) (qy_l + qydiff);
        udiff \<leftarrow> rd (udiff_C ctx) (i * padZ + k);
        udn \<leftarrow> rd (udiff_next a) k;
        udiffs \<leftarrow> wr (udiff_C ctx) (i * padZ + k) udn;
        d1 \<leftarrow> (if i > 0 then rd qx (l + k - padZ) else Some 0);
        d2 \<leftarrow> (if j > 0 then rd qy (l + k - m) else Some 0);
        d3 \<leftarrow> (if i < dimX - 1 then rd qx (l + k) else Some 0);
        d4 \<leftarrow> (if j < copY - 1 then rd qy (l + k) else Some 0);
        let div_upd = 0 - d1 - d2 + d3 + d4;
        div_l \<leftarrow> rd (div_C ctx) (l + k);
        let divdiff = div_l - div_upd;
        div' \<leftarrow> wr (div_C ctx) (l + k) div_upd;
        gxd \<leftarrow> rd (gradxdiff a) k;
        gyd \<leftarrow> rd (gradydiff a) k;
        Some (ctx\<lparr>qx_C := qx, qy_C := qy, udiff_C := udiffs, div_C := div',
                 unorm_C := unorm_C ctx + (udiff * udiff),
                 qnorm_C := qnorm_C ctx + (qxdiff * qxdiff + qydiff * qydiff),
                 resprimal_C := resprimal_C ctx +
                   (if resprimal_counted offY j then \<bar>divtau * udiff + divdiff\<bar> else 0),
                 resdual_C := resdual_C ctx + \<bar>divsigma * qxdiff + gxd\<bar>
                                + \<bar>divsigma * qydiff + gyd\<bar>,
                 product_C := product_C ctx - (gxd * qxdiff + gyd * qydiff)\<rparr>)
      }))"

text \<open>
  Lines 328--330 and 399: the call of \<^verbatim>\<open>coefF\<close>, with the locals \<open>p = 1\<close>, \<open>q = 1\<close>,
  \<open>r = 0\<close> of \<^verbatim>\<open>tnv_step\<close>.
\<close>

definition step_prox ::
  "tnv_consts \<Rightarrow> cfloat \<Rightarrow> cfloat \<Rightarrow> cfloat \<Rightarrow> cfloat \<Rightarrow> (cfloat \<times> cfloat \<times> cfloat) option" where
  "step_prox h M1 M2 M3 sigma = (let p = 1; q = 1; r = 0 in coefF h M1 M2 M3 sigma p q r)"

text \<open>
  The matrix \<open>t\<close> as the second loop over the channels reads it. The buffers of the
  model hold numbers: where an entry of \<open>t\<close> is an infinity or a NaN, which the source
  carries on into \<^verbatim>\<open>qx\<close> and \<^verbatim>\<open>qy\<close>, the step has no value here.
\<close>

fun numbers :: "cfloat \<times> cfloat \<times> cfloat \<Rightarrow> (real \<times> real \<times> real) option" where
  "numbers (Finite t0, Finite t1, Finite t2) = Some (t0, t1, t2)"
| "numbers t = None"

text \<open>Lines 372--431: the body of the loops over \<open>j\<close> and \<open>i\<close>.\<close>

definition step_pixel ::
  "tnv_consts \<Rightarrow> tnv_context_t \<Rightarrow> int \<Rightarrow> int \<Rightarrow> tnv_thread_t \<times> scratch \<Rightarrow> (tnv_thread_t \<times> scratch) option" where
  "step_pixel h c j i = (\<lambda>(ctx, a).
     (let dimZ = dimZ_C c; sigma = sigma_C c
      in do {
        (ctx1, a1, M1, M2, M3) \<leftarrow> for_loop [0..dimZ - 1] (step_gradient c j i) (ctx, a, 0, 0, 0);
        t \<leftarrow> step_prox h (Finite M1) (Finite M2) (Finite M3) (Finite sigma);
        t' \<leftarrow> numbers t;
        ctx2 \<leftarrow> for_loop [0..dimZ - 1] (step_dual c j i t' a1) ctx1;
        Some (ctx2, a1)
      }))"

definition tnv_step_thread :: "tnv_consts \<Rightarrow> tnv_context_t \<Rightarrow> tnv_thread_t \<Rightarrow> tnv_thread_t option" where
  "tnv_step_thread h c ctx =
     (let dimX = dimX_C c; dimZ = dimZ_C c; stepY = stepY_C ctx
      in if dimZ < 0 then None else do {
        let a = \<lparr>gradxdiff = replicate (nat dimZ) 0, gradydiff = replicate (nat dimZ) 0,
                 ubarx = replicate (nat dimZ) 0, ubary = replicate (nat dimZ) 0,
                 udiff_next = replicate (nat dimZ) 0\<rparr>;
        let ctx0 = ctx\<lparr>resprimal_C := 0, resdual_C := 0, product_C := 0, unorm_C := 0,
                       qnorm_C := 0\<rparr>;
        ctx1 \<leftarrow> for_loop [0..dimX - 1] (\<lambda>i. for_loop [0..dimZ - 1] (\<lambda>k. step_first_row c i k)) ctx0;
        (ctx2, a2) \<leftarrow> for_loop [0..stepY - 1] (\<lambda>j. for_loop [0..dimX - 1] (\<lambda>i. step_pixel h c j i))
                        (ctx1, a);
        Some ctx2
      })"

definition tnv_step :: "tnv_consts \<Rightarrow> process \<Rightarrow> int \<Rightarrow> process option" where
  "tnv_step h p device_id = on_thread (tnv_step_thread h) p device_id"

subsection \<open>\<^verbatim>\<open>TNV_CPU_init\<close>: partitioning (lines 446--485)\<close>

text \<open>
  Lines 460--461: the number of partitions, from the processor count and \<^verbatim>\<open>dimY\<close>.
  The division of C integers truncates towards zero (\<open>sdiv\<close>, \<open>smod\<close>).
\<close>

definition partition_count :: "int \<Rightarrow> int \<Rightarrow> int" where
  "partition_count cpus dimY = (let threads = cpus in if threads > dimY then dimY sdiv 2 else threads)"

text \<open>A \<^verbatim>\<open>tnv_thread_t\<close> as \<^verbatim>\<open>calloc\<close> returns it: all pointers null, all numbers zero.\<close>

definition calloc_thread :: tnv_thread_t where
  "calloc_thread =
     \<lparr>offY_C = 0, stepY_C = 0, copY_C = 0, Input_C = [], u_C = [], qx_C = [], qy_C = [],
      gradx_C = [], grady_C = [], div_C = [], div0_C = [], udiff0_C = [], udiff_C = [],
      resprimal_C = 0, resdual_C = 0, unorm_C = 0, qnorm_C = 0, product_C = 0\<rparr>"

text \<open>
  Lines 468--477: the loop that fills in the partitions; the state is the array built so
  far and \<^verbatim>\<open>off\<close>.
\<close>

definition init_partition ::
  "int \<Rightarrow> int \<Rightarrow> int \<Rightarrow> int \<Rightarrow> tnv_thread_t list \<times> int \<Rightarrow> (tnv_thread_t list \<times> int) option" where
  "init_partition threads step extra i = (\<lambda>(thr_ctx, off).
     if 0 \<le> i \<and> i < int (length thr_ctx) then
       (let size = step + (if i < extra then 1 else 0);
            ctx = (thr_ctx ! nat i)\<lparr>offY_C := off, stepY_C := size\<rparr>;
            ctx' = (if i = threads - 1 then ctx\<lparr>copY_C := stepY_C ctx\<rparr>
                    else ctx\<lparr>copY_C := stepY_C ctx + 1\<rparr>)
        in Some (thr_ctx[nat i := ctx'], off + size))
     else None)"

definition TNV_CPU_init ::
  "environment \<Rightarrow> int \<Rightarrow> int \<Rightarrow> int \<Rightarrow> int \<Rightarrow> int \<Rightarrow> process \<Rightarrow> process option" where
  "TNV_CPU_init env InputT uT dimX dimY dimZ p =
     (if sched p \<noteq> None then Some p
      else
        (let c = (tnv_ctx p)\<lparr>dimX_C := dimX, dimY_C := dimY, dimZ_C := dimZ, padZ_C := dimZ\<rparr>;
             threads = partition_count (cpu_count env) dimY
         in if threads \<le> 0 then None \<comment> \<open>a division by zero, or a pool without workers\<close>
            else do {
              let step = dimY sdiv threads;
              let extra = dimY smod threads;
              (thr_ctx, off) \<leftarrow> for_loop [0..threads - 1] (init_partition threads step extra)
                                 (replicate (nat threads) calloc_thread, 0);
              schedule Tnv_init (tnv_init env)
                (p\<lparr>sched := Some threads,
                   tnv_ctx := c\<lparr>threads_C := threads, thr_ctx_C := thr_ctx\<rparr>\<rparr>)
            }))"

subsection \<open>\<^verbatim>\<open>TNV_CPU_main\<close> (lines 507--642)\<close>

text \<open>
  Lines 563--582, the border regions: the body of the loops over the boundary \<open>j\<close>, the
  column \<open>i\<close> and the channel \<open>k\<close>. \<^verbatim>\<open>dimX\<close> and \<^verbatim>\<open>dimZ\<close> are the arguments of
  \<^verbatim>\<open>TNV_CPU_main\<close>, \<^verbatim>\<open>padZ\<close> is the field of the context. The state is the array of
  partitions and \<^verbatim>\<open>resprimal\<close>.
\<close>

definition border_cell ::
  "int \<Rightarrow> int \<Rightarrow> real \<Rightarrow> int \<Rightarrow> int \<Rightarrow> int \<Rightarrow> tnv_thread_t list \<times> real
     \<Rightarrow> (tnv_thread_t list \<times> real) option" where
  "border_cell dimX padZ divtau j i k = (\<lambda>(thr_ctx, resprimal).
     if 1 \<le> j \<and> j < int (length thr_ctx) then
       (let ctx0 = thr_ctx ! nat (j - 1);
            ctx = thr_ctx ! nat j;
            m = (stepY_C ctx0 - 1) * dimX * padZ;
            l = i * padZ + k
        in do {
          div0_l \<leftarrow> rd (div0_C ctx) l;
          div_l \<leftarrow> rd (div_C ctx) l;
          let divdiff = div0_l - div_l;
          udiff \<leftarrow> rd (udiff0_C ctx) l;
          qy_m \<leftarrow> rd (qy_C ctx0) (l + m);
          b \<leftarrow> wr (div_C ctx) l (div_l - qy_m);
          b0 \<leftarrow> wr (div_C ctx0) (m + l + dimX * padZ) (div_l - qy_m);
          let divdiff' = divdiff + qy_m;
          Some (thr_ctx[nat (j - 1) := ctx0\<lparr>div_C := b0\<rparr>, nat j := ctx\<lparr>div_C := b\<rparr>],
                resprimal + \<bar>divtau * udiff + divdiff'\<bar>)
        })
     else None)"

definition border_regions ::
  "int \<Rightarrow> int \<Rightarrow> real \<Rightarrow> tnv_context_t \<Rightarrow> real \<Rightarrow> (tnv_thread_t list \<times> real) option" where
  "border_regions dimX dimZ divtau c resprimal =
     for_loop [1..threads_C c - 1] (\<lambda>j.
       for_loop [0..dimX - 1] (\<lambda>i.
         for_loop [0..dimZ - 1] (\<lambda>k. border_cell dimX (padZ_C c) divtau j i k)))
       (thr_ctx_C c, resprimal)"

text \<open>
  Lines 584--591: the sums over the partitions; the state is \<^verbatim>\<open>resprimal\<close>,
  \<^verbatim>\<open>resdual\<close>, \<^verbatim>\<open>product\<close>, \<^verbatim>\<open>unorm\<close>, \<^verbatim>\<open>qnorm\<close>.
\<close>

definition sum_partition ::
  "tnv_thread_t list \<Rightarrow> int \<Rightarrow> real \<times> real \<times> real \<times> real \<times> real
     \<Rightarrow> (real \<times> real \<times> real \<times> real \<times> real) option" where
  "sum_partition thr_ctx j = (\<lambda>(resprimal, resdual, product, unorm, qnorm).
     if 0 \<le> j \<and> j < int (length thr_ctx) then
       (let ctx = thr_ctx ! nat j
        in Some (resprimal + resprimal_C ctx, resdual + resdual_C ctx,
                 product + product_C ctx, unorm + unorm_C ctx, qnorm + qnorm_C ctx))
     else None)"

text \<open>
  Line 594: the balance ratio \<open>b\<close>, with \<open>gamma = 0.75\<close>. When the divisor and the
  dividend are both zero the C quotient is a NaN, for which the test \<open>b > 1\<close> of line 600
  fails, as it does for the value 0 the quotient has here. In the passes of a solve the
  divisor is zero only then (section ``The balance ratio is a number'').
\<close>

definition balance :: "real \<Rightarrow> real \<Rightarrow> real \<Rightarrow> real \<Rightarrow> real \<Rightarrow> real" where
  "balance tau sigma product unorm qnorm =
     (let gamma = 75 / 100
      in (2 * tau * sigma * product) / (gamma * sigma * unorm + gamma * tau * qnorm))"

text \<open>
  Lines 600--627: the step sizes after an iteration. The loop carries \<^verbatim>\<open>tau\<close>, \<^verbatim>\<open>sigma\<close>,
  \<^verbatim>\<open>alpha\<close> and \<^verbatim>\<open>started\<close>; the result says, besides, what the branch \<open>b > 1\<close> does.
\<close>

datatype backtrack = Rollback | Warn | Accept

definition step_size_controller ::
  "real \<times> real \<times> real \<times> int \<Rightarrow> real \<Rightarrow> real \<Rightarrow> real \<Rightarrow> (real \<times> real \<times> real \<times> int) \<times> backtrack" where
  "step_size_controller v b resprimal resdual = (case v of (tau, sigma, alpha, started) \<Rightarrow>
     (let s = 1; beta = 95 / 100; alpha0 = 2 / 10; delta = 15 / 10; eta = 95 / 100;
          dual_dot_delta = resdual * s * delta;
          dual_div_delta = (resdual * s) / delta
      in if b > 1 then
           ((((beta * tau) / b, (beta * sigma) / b, alpha0, started),
             (if started \<noteq> 0 then Warn else Rollback)))
         else if resprimal > dual_dot_delta then
           ((tau / (1 - alpha), sigma * (1 - alpha), alpha * eta, 1), Accept)
         else if resprimal < dual_div_delta then
           ((tau * (1 - alpha), sigma / (1 - alpha), alpha * eta, 1), Accept)
         else ((tau, sigma, alpha, 1), Accept)))"

text \<open>
  Lines 546--591: the first half of a pass of the loop. The step sizes are handed to
  the partitions, \<^verbatim>\<open>tnv_step\<close> runs on each, the border regions are reconciled and
  the statistics summed. The result is the process with \<^verbatim>\<open>resprimal\<close>,
  \<^verbatim>\<open>resdual\<close>, \<^verbatim>\<open>product\<close>, \<^verbatim>\<open>unorm\<close> and \<^verbatim>\<open>qnorm\<close>; \<^verbatim>\<open>theta\<close> stays 1.
\<close>

definition pdhg_statistics ::
  "tnv_consts \<Rightarrow> int \<Rightarrow> int \<Rightarrow> real \<Rightarrow> real \<Rightarrow> process
     \<Rightarrow> (process \<times> real \<times> real \<times> real \<times> real \<times> real) option" where
  "pdhg_statistics h dimX dimZ tau sigma p =
     (let theta = 1;
          divtau = 1 / tau;
          p1 = p\<lparr>tnv_ctx := (tnv_ctx p)\<lparr>sigma_C := sigma, tau_C := tau, theta_C := theta\<rparr>\<rparr>
      in do {
        p2 \<leftarrow> schedule Tnv_step (tnv_step h) p1;
        (thr_ctx, resprimal0) \<leftarrow> border_regions dimX dimZ divtau (tnv_ctx p2) 0;
        stats \<leftarrow> for_loop [0..threads_C (tnv_ctx p2) - 1] (sum_partition thr_ctx)
                  (resprimal0, 0, 0, 0, 0);
        Some (p2\<lparr>tnv_ctx := (tnv_ctx p2)\<lparr>thr_ctx_C := thr_ctx\<rparr>\<rparr>, stats)
      })"

text \<open>Lines 607--613: what the branch \<open>b > 1\<close> does besides shrinking the steps.\<close>

definition backtracking :: "backtrack \<Rightarrow> process \<Rightarrow> process option" where
  "backtracking action p =
     (case action of
        Rollback \<Rightarrow> schedule Tnv_restore tnv_restore p
      | Warn \<Rightarrow> Some (p\<lparr>trace := trace p @ [Backtrack_warning]\<rparr>)
      | Accept \<Rightarrow> Some p)"

text \<open>
  Lines 546--627: one pass of the loop, up to the test of line 629. The state is the
  process with \<^verbatim>\<open>tau\<close>, \<^verbatim>\<open>sigma\<close>, \<^verbatim>\<open>alpha\<close>, \<^verbatim>\<open>started\<close> and \<^verbatim>\<open>residual\<close>.
\<close>

definition pdhg_iteration ::
  "tnv_consts \<Rightarrow> int \<Rightarrow> int \<Rightarrow> int \<Rightarrow> process \<times> (real \<times> real \<times> real \<times> int) \<times> real
     \<Rightarrow> (process \<times> (real \<times> real \<times> real \<times> int) \<times> real) option" where
  "pdhg_iteration h dimX dimY dimZ = (\<lambda>(p, v, residual). case v of (tau, sigma, alpha, started) \<Rightarrow>
     do {
       (p3, resprimal, resdual, product, unorm, qnorm) \<leftarrow> pdhg_statistics h dimX dimZ tau sigma p;
       let residual' = (resprimal + resdual) / real_of_int (dimX * dimY * dimZ);
       let b = balance tau sigma product unorm qnorm;
       let (v', action) = step_size_controller v b resprimal resdual;
       p4 \<leftarrow> backtracking action p3;
       Some (p4, v', residual')
     })"

text \<open>
  Lines 545--630: the loop, by the number of passes still allowed; \<^verbatim>\<open>iter\<close> counts the
  passes completed without the \<^verbatim>\<open>break\<close> of line 629. When \<open>dimX dimY dimZ = 0\<close> the
  residual of line 593 is infinite or a NaN in C, and the test of line 629 fails.
\<close>

fun pdhg_loop ::
  "tnv_consts \<Rightarrow> real \<Rightarrow> int \<Rightarrow> int \<Rightarrow> int \<Rightarrow> nat \<Rightarrow> int
     \<Rightarrow> process \<times> (real \<times> real \<times> real \<times> int) \<times> real
     \<Rightarrow> (int \<times> process \<times> (real \<times> real \<times> real \<times> int) \<times> real) option" where
  "pdhg_loop h tol dimX dimY dimZ 0 iter s = Some (iter, s)"
| "pdhg_loop h tol dimX dimY dimZ (Suc n) iter s =
     (case pdhg_iteration h dimX dimY dimZ s of
        None \<Rightarrow> None
      | Some (p, v, residual) \<Rightarrow>
          if dimX * dimY * dimZ \<noteq> 0 \<and> residual < tol then Some (iter, p, v, residual)
          else pdhg_loop h tol dimX dimY dimZ n (iter + 1) (p, v, residual))"

text \<open>
  The whole entry point. The result is the returned value \<^verbatim>\<open>*uT\<close> with the process left
  behind; the values of \<^verbatim>\<open>iter\<close>, the step sizes and \<^verbatim>\<open>residual\<close> at the end of
  the loop are given too (the function prints \<^verbatim>\<open>iter\<close> and \<^verbatim>\<open>residual\<close>).
\<close>

definition TNV_CPU_solve ::
  "tnv_consts \<Rightarrow> environment \<Rightarrow> int \<Rightarrow> int \<Rightarrow> real \<Rightarrow> int \<Rightarrow> real \<Rightarrow> int \<Rightarrow> int \<Rightarrow> int \<Rightarrow> process
     \<Rightarrow> (int \<times> process \<times> (real \<times> real \<times> real \<times> int) \<times> real) option" where
  "TNV_CPU_solve h env InputT uT lambda maxIter tol dimX dimY dimZ p =
     (let lambda' = 1 / (2 * lambda);
          p1 = p\<lparr>tnv_ctx := (tnv_ctx p)\<lparr>lambda_C := lambda'\<rparr>\<rparr>;
          tau = 5 / 10;
          sigma = 5 / 10;
          alpha0 = 2 / 10;
          alpha = alpha0
      in do {
        p2 \<leftarrow> TNV_CPU_init env InputT uT dimX dimY dimZ p1;
        let p3 = p2\<lparr>tnv_ctx := (tnv_ctx p2)\<lparr>InputT_C := InputT, uT_C := uT\<rparr>\<rparr>;
        p4 \<leftarrow> schedule Tnv_start tnv_start p3;
        let residual = fLarge h;
        let started = 0;
        (iter, p5, v, residual') \<leftarrow>
          pdhg_loop h tol dimX dimY dimZ (nat maxIter) 0 (p4, (tau, sigma, alpha, started), residual);
        p6 \<leftarrow> schedule Tnv_finish tnv_finish p5;
        Some (iter, p6, v, residual')
      })"

definition TNV_CPU_main ::
  "tnv_consts \<Rightarrow> environment \<Rightarrow> int \<Rightarrow> int \<Rightarrow> real \<Rightarrow> int \<Rightarrow> real \<Rightarrow> int \<Rightarrow> int \<Rightarrow> int \<Rightarrow> process
     \<Rightarrow> (real \<times> process) option" where
  "TNV_CPU_main h env InputT uT lambda maxIter tol dimX dimY dimZ p =
     (case TNV_CPU_solve h env InputT uT lambda maxIter tol dimX dimY dimZ p of
        None \<Rightarrow> None
      | Some (iter, p', v, residual) \<Rightarrow> Some (mem p' uT, p'))"

section \<open>What the claims observe\<close>

text \<open>The rows of a partition: its offset, its height and its height with the halo row.\<close>

definition geometry :: "tnv_thread_t \<Rightarrow> int \<times> int \<times> int" where
  "geometry ctx = (offY_C ctx, stepY_C ctx, copY_C ctx)"

text \<open>
  The worker pool, the stored dimensions and the partitioning: what \<^verbatim>\<open>TNV_CPU_init\<close>
  sets up.
\<close>

definition layout ::
  "process \<Rightarrow> int option \<times> (int \<times> int \<times> int \<times> int \<times> int) \<times> (int \<times> int \<times> int) list" where
  "layout p =
     (sched p,
      (threads_C (tnv_ctx p), dimX_C (tnv_ctx p), dimY_C (tnv_ctx p), dimZ_C (tnv_ctx p),
       padZ_C (tnv_ctx p)),
      map geometry (thr_ctx_C (tnv_ctx p)))"

text \<open>The regularisation weight and the two volume pointers of the context.\<close>

definition call_parameters :: "process \<Rightarrow> real \<times> int \<times> int" where
  "call_parameters p = (lambda_C (tnv_ctx p), InputT_C (tnv_ctx p), uT_C (tnv_ctx p))"

text \<open>What the branch \<open>b > 1\<close> of an iteration adds to the trace.\<close>

definition backtrack_events :: "backtrack \<Rightarrow> event list" where
  "backtrack_events action =
     (case action of Rollback \<Rightarrow> [Scheduled Tnv_restore] | Warn \<Rightarrow> [Backtrack_warning]
      | Accept \<Rightarrow> [])"

text \<open>
  The rows \<open>[off, off + step)\<close> of a partition lie inside an image of \<open>dimY\<close> rows.
\<close>

definition rows_within :: "int \<Rightarrow> int \<times> int \<times> int \<Rightarrow> bool" where
  "rows_within dimY g = (case g of (off, step, cop) \<Rightarrow> 0 \<le> off \<and> off + step \<le> dimY)"

text \<open>
  The process is set up for volumes of the given dimensions: these are the stored
  dimensions, and every partition lies inside the image.
\<close>

definition set_up_for :: "process \<Rightarrow> int \<Rightarrow> int \<Rightarrow> int \<Rightarrow> bool" where
  "set_up_for p dimX dimY dimZ =
     (dimX_C (tnv_ctx p) = dimX \<and> dimY_C (tnv_ctx p) = dimY \<and> dimZ_C (tnv_ctx p) = dimZ
      \<and> list_all (rows_within dimY) (map geometry (thr_ctx_C (tnv_ctx p))))"

text \<open>
  The sums of squares of a partition are not negative, and \<^verbatim>\<open>product\<close> vanishes with
  \<^verbatim>\<open>qnorm\<close>.
\<close>

definition norms_sound :: "real \<Rightarrow> real \<Rightarrow> real \<Rightarrow> bool" where
  "norms_sound product unorm qnorm = (0 \<le> unorm \<and> 0 \<le> qnorm \<and> (qnorm = 0 \<longrightarrow> product = 0))"

definition partition_sound :: "tnv_thread_t \<Rightarrow> bool" where
  "partition_sound ctx = norms_sound (product_C ctx) (unorm_C ctx) (qnorm_C ctx)"

text \<open>The pool has one worker for each partition.\<close>

definition pool_matches :: "process \<Rightarrow> bool" where
  "pool_matches p = (sched p = Some (threads_C (tnv_ctx p)))"

text \<open>The step sizes and the adaptation rate a pass of the loop may start from.\<close>

definition steps_positive :: "real \<times> real \<times> real \<times> int \<Rightarrow> bool" where
  "steps_positive v = (case v of (tau, sigma, alpha, started) \<Rightarrow>
     0 < tau \<and> 0 < sigma \<and> 0 < alpha \<and> alpha < 1)"

text \<open>
  The states a run of \<^verbatim>\<open>tnv_step\<close> on a partition passes through. \<open>step_entry\<close> is the
  state when the loop over the rows starts (line 370), with the accumulators cleared
  and the first row updated; \<open>before_pixel\<close> the state when the body of the loops
  over \<open>j\<close> and \<open>i\<close> starts on the pixel \<open>(j, i)\<close>; \<open>dual_start\<close> the state, the
  arrays and the matrix \<open>t\<close> with which the second loop over the channels of that pixel
  starts (line 402); \<open>before_channel\<close> the state when that loop reaches the channel
  \<open>k\<close>.
\<close>

definition step_entry :: "tnv_context_t \<Rightarrow> tnv_thread_t \<Rightarrow> (tnv_thread_t \<times> scratch) option" where
  "step_entry c ctx =
     (let dimX = dimX_C c; dimZ = dimZ_C c
      in if dimZ < 0 then None else do {
        let a = \<lparr>gradxdiff = replicate (nat dimZ) 0, gradydiff = replicate (nat dimZ) 0,
                 ubarx = replicate (nat dimZ) 0, ubary = replicate (nat dimZ) 0,
                 udiff_next = replicate (nat dimZ) 0\<rparr>;
        let ctx0 = ctx\<lparr>resprimal_C := 0, resdual_C := 0, product_C := 0, unorm_C := 0,
                       qnorm_C := 0\<rparr>;
        ctx1 \<leftarrow> for_loop [0..dimX - 1] (\<lambda>i. for_loop [0..dimZ - 1] (\<lambda>k. step_first_row c i k)) ctx0;
        Some (ctx1, a)
      })"

definition before_pixel ::
  "tnv_consts \<Rightarrow> tnv_context_t \<Rightarrow> tnv_thread_t \<Rightarrow> int \<Rightarrow> int \<Rightarrow> (tnv_thread_t \<times> scratch) option" where
  "before_pixel h c ctx j i = do {
     s \<leftarrow> step_entry c ctx;
     r \<leftarrow> for_loop [0..j - 1] (\<lambda>j. for_loop [0..dimX_C c - 1] (\<lambda>i. step_pixel h c j i)) s;
     for_loop [0..i - 1] (\<lambda>i. step_pixel h c j i) r
   }"

definition dual_start ::
  "tnv_consts \<Rightarrow> tnv_context_t \<Rightarrow> tnv_thread_t \<Rightarrow> int \<Rightarrow> int
     \<Rightarrow> (tnv_thread_t \<times> scratch \<times> (real \<times> real \<times> real)) option" where
  "dual_start h c ctx j i = do {
     (ctx0, a) \<leftarrow> before_pixel h c ctx j i;
     (ctx1, a1, M1, M2, M3) \<leftarrow> for_loop [0..dimZ_C c - 1] (step_gradient c j i) (ctx0, a, 0, 0, 0);
     t \<leftarrow> step_prox h (Finite M1) (Finite M2) (Finite M3) (Finite (sigma_C c));
     t' \<leftarrow> numbers t;
     Some (ctx1, a1, t')
   }"

definition before_channel ::
  "tnv_consts \<Rightarrow> tnv_context_t \<Rightarrow> tnv_thread_t \<Rightarrow> int \<Rightarrow> int \<Rightarrow> int \<Rightarrow> tnv_thread_t option" where
  "before_channel h c ctx j i k = do {
     (ctx1, a1, t') \<leftarrow> dual_start h c ctx j i;
     for_loop [0..k - 1] (step_dual c j i t' a1) ctx1
   }"

text \<open>
  The term \<open>|u_diff / tau + div_diff|\<close> of the pixel \<open>(j, i)\<close> and the channel \<open>k\<close> in a
  run of \<^verbatim>\<open>tnv_step\<close> on the partition \<open>ctx\<close>: \<open>u_diff\<close> is the entry of \<^verbatim>\<open>ctx->udiff\<close>
  the pass over the channel finds (line 413), \<open>div_diff\<close> the divergence \<^verbatim>\<open>div[l + k]\<close>
  it finds minus the one it leaves (lines 424--425).
\<close>

definition primal_term ::
  "tnv_consts \<Rightarrow> tnv_context_t \<Rightarrow> tnv_thread_t \<Rightarrow> int \<Rightarrow> int \<Rightarrow> int \<Rightarrow> real option" where
  "primal_term h c ctx j i k = do {
     s \<leftarrow> before_channel h c ctx j i k;
     s' \<leftarrow> before_channel h c ctx j i (k + 1);
     udiff \<leftarrow> rd (udiff_C s) (i * padZ_C c + k);
     d \<leftarrow> rd (div_C s) ((j * dimX_C c + i) * padZ_C c + k);
     d' \<leftarrow> rd (div_C s') ((j * dimX_C c + i) * padZ_C c + k);
     Some \<bar>1 / tau_C c * udiff + (d - d')\<bar>
   }"

section \<open>Sample inputs\<close>

text \<open>A choice of the header's constants, for evaluating the functions on concrete inputs.\<close>

definition sample_consts :: tnv_consts where
  "sample_consts =
     \<lparr>fTiny = 1 / 100000000, fLarge = 100000000, INFNORM = - 1, MAX_NaN = (\<lambda>a b. b)\<rparr>"

text \<open>The same constants with the other spelling of \<^verbatim>\<open>MAX\<close>.\<close>

definition sample_consts2 :: tnv_consts where
  "sample_consts2 = sample_consts\<lparr>MAX_NaN := (\<lambda>a b. a)\<rparr>"

text \<open>
  A machine with one processor and one with two; allocated memory holds zeros. A fresh
  process: no scheduler yet, the context zero-initialised as a C global is, and a
  memory holding the volume \<open>(0, 1)\<close> at the cells 0 and 1 and once more at the cells
  10 and 11.
\<close>

definition one_cpu :: environment where
  "one_cpu = \<lparr>cpu_count = 1, heap_junk = (\<lambda>a i. 0)\<rparr>"

definition two_cpus :: environment where
  "two_cpus = \<lparr>cpu_count = 2, heap_junk = (\<lambda>a i. 0)\<rparr>"

definition zero_context :: tnv_context_t where
  "zero_context =
     \<lparr>threads_C = 0, thr_ctx_C = [], InputT_C = 0, uT_C = 0, dimX_C = 0, dimY_C = 0,
      dimZ_C = 0, padZ_C = 0, lambda_C = 0, sigma_C = 0, tau_C = 0, theta_C = 0\<rparr>"

definition ramp_memory :: "int \<Rightarrow> real" where
  "ramp_memory = (\<lambda>a. 0)(1 := 1, 11 := 1)"

definition fresh_process :: process where
  "fresh_process = \<lparr>sched = None, tnv_ctx = zero_context, mem = ramp_memory, trace = []\<rparr>"

text \<open>
  The process after \<^verbatim>\<open>TNV_CPU_init\<close> and \<^verbatim>\<open>tnv_start\<close> for the volume at the cells 0
  and 1 as input and the one at the cells 10 and 11 as estimate, with
  \<^verbatim>\<open>dimX = 1\<close>, \<^verbatim>\<open>dimY = 2\<close>, \<^verbatim>\<open>dimZ = 1\<close>, \<^verbatim>\<open>lambda = 1\<close> and one processor: a
  single partition of two rows, with a third row allocated for the halo.
\<close>

definition ramp_partition :: tnv_thread_t where
  "ramp_partition =
     \<lparr>offY_C = 0, stepY_C = 2, copY_C = 2, Input_C = [0, 1, 0], u_C = [0, 1, 0],
      qx_C = [0, 0], qy_C = [0, 0], gradx_C = [0, 0], grady_C = [0, 0], div_C = [0, 0, 0],
      div0_C = [0], udiff0_C = [0], udiff_C = [0],
      resprimal_C = 0, resdual_C = 0, unorm_C = 0, qnorm_C = 0, product_C = 0\<rparr>"

definition ingested_process :: process where
  "ingested_process =
     \<lparr>sched = Some 1,
      tnv_ctx = \<lparr>threads_C = 1, thr_ctx_C = [ramp_partition], InputT_C = 0, uT_C = 10,
                 dimX_C = 1, dimY_C = 2, dimZ_C = 1, padZ_C = 1, lambda_C = 1 / 2,
                 sigma_C = 0, tau_C = 0, theta_C = 0\<rparr>,
      mem = ramp_memory,
      trace = [Scheduled Tnv_init, Scheduled Tnv_start]\<rparr>"

text \<open>A memory holding the constant volume \<open>(1, 1)\<close> at the cells 0 and 1, and zeros elsewhere.\<close>

definition flat_memory :: "int \<Rightarrow> real" where
  "flat_memory = (\<lambda>a. 0)(0 := 1, 1 := 1)"

text \<open>The context of the sample input during its first iteration.\<close>

definition ramp_context :: tnv_context_t where
  "ramp_context = (tnv_ctx ingested_process)\<lparr>sigma_C := 1 / 2, tau_C := 1 / 2, theta_C := 1\<rparr>"

text \<open>
  The second of two one-row partitions of the constant volume, with a zero estimate,
  as \<^verbatim>\<open>tnv_step\<close> is handed it in the first iteration.
\<close>

definition flat_entry :: tnv_thread_t where
  "flat_entry =
     \<lparr>offY_C = 1, stepY_C = 1, copY_C = 1, Input_C = [1, 0], u_C = [0, 0],
      qx_C = [0], qy_C = [0], gradx_C = [0], grady_C = [0], div_C = [0, 0],
      div0_C = [0], udiff0_C = [0], udiff_C = [0],
      resprimal_C = 0, resdual_C = 0, unorm_C = 0, qnorm_C = 0, product_C = 0\<rparr>"

text \<open>
  A memory holding \<open>(1, 0, 4)\<close> at the cells 20, 21 and 22, and zeros elsewhere.
\<close>

definition stair_memory :: "int \<Rightarrow> real" where
  "stair_memory = (\<lambda>a. 0)(20 := 1, 22 := 4)"

section \<open>Evaluating the model\<close>

lemmas c_arith = signed_divide_int_def signed_modulo_int_def upto.simps eval_nat_numeral
  upt_conv_Cons

lemmas buf_defs = rd_def wr_def memset0_def malloc_def

lemmas sched_defs = schedule_def on_thread_def

lemmas sample_defs = fresh_process_def one_cpu_def two_cpus_def zero_context_def
  ramp_memory_def sample_consts_def sample_consts2_def

lemmas init_defs = TNV_CPU_init_def partition_count_def init_partition_def calloc_thread_def
  tnv_init_def tnv_init_thread_def

lemmas start_defs = tnv_start_def tnv_start_thread_def tnv_start_copy_def

lemmas finish_defs = tnv_finish_def tnv_finish_copy_def

lemmas restore_defs = tnv_restore_def tnv_restore_thread_def

lemmas step_defs = tnv_step_def tnv_step_thread_def step_first_row_def step_pixel_def
  step_gradient_def step_dual_def step_prox_def resprimal_counted_def

lemmas float_defs = zero_cfloat_def one_cfloat_def plus_cfloat_def minus_cfloat_def
  uminus_cfloat_def times_cfloat_def divide_cfloat_def abs_cfloat_def less_cfloat_def
  round_f_def float_limit_def signed_inf_def f_ne_def MAX_C_def

lemmas exact_defs = singular_values_def eigenvalues_def eigenvectors_def prox_diag_def

lemmas prox_defs = coefF_def singular_values_float_def eigenvalues_float_def
  eigenvectors_float_def prox_diag_float_def float_defs

lemmas main_defs = border_regions_def border_cell_def sum_partition_def balance_def
  step_size_controller_def pdhg_statistics_def backtracking_def pdhg_iteration_def

text \<open>
  Evaluation goes from the outside in: the body of a loop and the rest of a sequence are
  only looked at once the state they are applied to is known.
\<close>

lemma bind_weak_cong: "x = y \<Longrightarrow> Option.bind x f = Option.bind y f"
  by simp

lemma for_loop_weak_cong: "xs = ys \<Longrightarrow> s = t \<Longrightarrow> for_loop xs body s = for_loop ys body t"
  by simp

lemma Let_weak_cong: "a = b \<Longrightarrow> Let a t = Let b t"
  by simp

lemma case_prod_weak_cong: "p = q \<Longrightarrow> case_prod f p = case_prod f q"
  by simp

lemmas eval_cong = bind_weak_cong for_loop_weak_cong Let_weak_cong case_prod_weak_cong

section \<open>Arithmetic on \<^verbatim>\<open>float\<close> values\<close>

text \<open>On numbers the operations are the exact ones, followed by the rounding to the range.\<close>

lemma float_limit_gt: "1 < float_limit" "0 < float_limit"
  by (simp_all add: float_limit_def)

lemma float_limit_above: "(2::real) ^ 127 < float_limit"
  by (simp add: float_limit_def)

lemma round_f_in: "\<bar>r\<bar> < float_limit \<Longrightarrow> round_f r = Finite r"
  by (simp add: round_f_def)

lemma round_f_0 [simp]: "round_f 0 = Finite 0" "round_f 1 = Finite 1"
  by (simp_all add: round_f_def float_limit_def)

lemma cfloat_ops:
  "Finite a + Finite b = round_f (a + b)"
  "Finite a - Finite b = round_f (a - b)"
  "Finite a * Finite b = round_f (a * b)"
  "b \<noteq> 0 \<Longrightarrow> Finite a / Finite b = round_f (a / b)"
  "\<bar>Finite a\<bar> = Finite \<bar>a\<bar>"
  "(Finite a < Finite b) = (a < b)"
  "0 \<le> a \<Longrightarrow> fsqrt (Finite a) = round_f (sqrt a)"
  "(0::cfloat) = Finite 0" "(1::cfloat) = Finite 1"
  "f_ne (Finite a) (Finite b) = (a \<noteq> b)"
  by (simp_all add: zero_cfloat_def one_cfloat_def plus_cfloat_def minus_cfloat_def
      times_cfloat_def divide_cfloat_def abs_cfloat_def less_cfloat_def f_ne_def)

lemma MAX_C_Finite: "MAX_C c (Finite a) (Finite b) = Finite (max a b)"
  by (simp add: MAX_C_def less_cfloat_def max_def)

lemma square_in_range:
  assumes "x * x < float_limit"
  shows "\<bar>x\<bar> < float_limit"
proof (rule ccontr)
  assume "\<not> \<bar>x\<bar> < float_limit"
  then have a: "float_limit \<le> \<bar>x\<bar>" by simp
  have "float_limit * 1 \<le> float_limit * float_limit"
    using float_limit_gt by (intro mult_left_mono) simp_all
  also have "\<dots> \<le> \<bar>x\<bar> * \<bar>x\<bar>"
    using a float_limit_gt by (intro mult_mono) simp_all
  also have "\<dots> = x * x" by simp
  finally show False using assms by simp
qed

lemma sqrt_in_range:
  assumes "0 \<le> x" and "x < float_limit"
  shows "\<bar>sqrt x\<bar> < float_limit"
proof -
  have "x < float_limit\<^sup>2"
  proof -
    have "float_limit * 1 \<le> float_limit * float_limit"
      using float_limit_gt by (intro mult_left_mono) simp_all
    then show ?thesis using assms(2) by (simp add: power2_eq_square)
  qed
  then have "sqrt x < float_limit"
    using float_limit_gt by (intro real_less_lsqrt) simp_all
  then show ?thesis using assms(1) by simp
qed

section \<open>Properties of the proximal operator\<close>

subsection \<open>Eigenvalues and singular values\<close>

lemma eigenvalues_order:
  "eigenvalues M1 M2 M3 = (e1, e2) \<Longrightarrow> e2 \<le> e1 \<and> 0 \<le> e2"
proof -
  assume h: "eigenvalues M1 M2 M3 = (e1, e2)"
  define d where "d = sqrt (max (((M1 + M3) * (M1 + M3) / 4) - (M1 * M3 - M2 * M2)) 0)"
  have d: "0 \<le> d" unfolding d_def by simp
  from h have "e1 = max ((M1 + M3) / 2 + d) 0" "e2 = max ((M1 + M3) / 2 - d) 0"
    unfolding eigenvalues_def Let_def d_def by simp_all
  moreover have "max ((M1 + M3) / 2 - d) 0 \<le> max ((M1 + M3) / 2 + d) 0"
    using d by (intro max.mono) simp_all
  ultimately show ?thesis by simp
qed

lemma singular_values_order:
  "singular_values M1 M2 M3 = (s1, s2) \<Longrightarrow> s2 \<le> s1 \<and> 0 \<le> s2"
  by (auto simp: singular_values_def split: prod.splits dest: eigenvalues_order)


subsection \<open>The water-filling loop\<close>

lemma l1_exit: "\<not> 1 < s \<Longrightarrow> l1_projection a b s k = Some (a, b)"
  by (subst l1_projection.simps) simp

lemma l1_single_left:
  assumes "1 < x"
  shows "l1_projection x 0 x (x - 1) = Some (1, 0)"
proof -
  have "l1_projection x 0 x (x - 1) = l1_projection 1 0 1 0"
    using assms by (subst l1_projection.simps) (simp add: Let_def max_def)
  then show ?thesis by (simp add: l1_exit)
qed

lemma l1_single_right:
  assumes "1 < x"
  shows "l1_projection 0 x x (x - 1) = Some (0, 1)"
proof -
  have "l1_projection 0 x x (x - 1) = l1_projection 0 1 1 0"
    using assms by (subst l1_projection.simps) (simp add: Let_def max_def)
  then show ?thesis by (simp add: l1_exit)
qed

lemma l1_both:
  assumes "0 < a" "0 < b"
  shows "\<exists>a' b'. l1_projection a b (a + b) ((a + b - 1) / 2) = Some (a', b')
           \<and> 0 \<le> a' \<and> 0 \<le> b' \<and> a' + b' \<le> 1 \<and> (a = b \<longrightarrow> a' = b')"
proof (cases "1 < a + b")
  case False
  then show ?thesis using assms by (simp add: l1_exit)
next
  case True
  define k where "k = (a + b - 1) / 2"
  have k: "0 < k" using True by (simp add: k_def)
  consider (both) "k < a" "k < b" | (left) "k < a" "b \<le> k" | (right) "a \<le> k" "k < b"
    | (none) "a \<le> k" "b \<le> k" by linarith
  then show ?thesis
  proof cases
    case both
    have "l1_projection a b (a + b) k = l1_projection (a - k) (b - k) 1 0"
      using True both by (subst l1_projection.simps) (simp add: Let_def max_def k_def field_simps)
    then have e: "l1_projection a b (a + b) k = Some (a - k, b - k)"
      by (simp add: l1_exit)
    have s: "(a - k) + (b - k) = 1" by (simp add: k_def field_simps)
    have "\<exists>a' b'. l1_projection a b (a + b) k = Some (a', b')
           \<and> 0 \<le> a' \<and> 0 \<le> b' \<and> a' + b' \<le> 1 \<and> (a = b \<longrightarrow> a' = b')"
      using both s e by simp
    then show ?thesis by (simp only: k_def)
  next
    case left
    have ak: "1 \<le> a - k" using left by (simp add: k_def field_simps)
    have "l1_projection a b (a + b) k = l1_projection (a - k) 0 (a - k) (a - k - 1)"
      using True left ak by (subst l1_projection.simps) (simp add: Let_def max_def)
    moreover have "l1_projection (a - k) 0 (a - k) (a - k - 1) = Some (1, 0)"
      using ak by (cases "1 < a - k") (simp_all add: l1_single_left l1_exit)
    moreover have "a \<noteq> b" using left by auto
    ultimately show ?thesis by (simp add: k_def)
  next
    case right
    have bk: "1 \<le> b - k" using right by (simp add: k_def field_simps)
    have "l1_projection a b (a + b) k = l1_projection 0 (b - k) (b - k) (b - k - 1)"
      using True right bk by (subst l1_projection.simps) (simp add: Let_def max_def)
    moreover have "l1_projection 0 (b - k) (b - k) (b - k - 1) = Some (0, 1)"
      using bk by (cases "1 < b - k") (simp_all add: l1_single_right l1_exit)
    moreover have "a \<noteq> b" using right by auto
    ultimately show ?thesis by (simp add: k_def)
  next
    case none
    then have "a + b \<le> 2 * k" by simp
    then have False using True by (simp add: k_def)
    then show ?thesis ..
  qed
qed

lemma l1_projection_total:
  assumes "1 < fl"
  shows "\<exists>a' b'. l1_projection a b fl 0 = Some (a', b')
           \<and> 0 \<le> a' \<and> 0 \<le> b' \<and> a' + b' \<le> 1 \<and> (a = b \<longrightarrow> a' = b')"
proof -
  consider (both) "0 < a" "0 < b" | (left) "0 < a" "b \<le> 0" | (right) "a \<le> 0" "0 < b"
    | (none) "a \<le> 0" "b \<le> 0" by linarith
  then show ?thesis
  proof cases
    case both
    have "l1_projection a b fl 0 = l1_projection a b (a + b) ((a + b - 1) / 2)"
      using assms both by (subst l1_projection.simps) (simp add: Let_def max_def)
    then show ?thesis using l1_both[OF both] by simp
  next
    case left
    have "l1_projection a b fl 0 = l1_projection a 0 a (a - 1)"
      using assms left by (subst l1_projection.simps) (simp add: Let_def max_def)
    moreover have "l1_projection a 0 a (a - 1) = Some (if 1 < a then 1 else a, 0)"
      by (cases "1 < a") (simp_all add: l1_single_left l1_exit)
    moreover have "a \<noteq> b" using left by auto
    ultimately show ?thesis using left by simp
  next
    case right
    have "l1_projection a b fl 0 = l1_projection 0 b b (b - 1)"
      using assms right by (subst l1_projection.simps) (simp add: Let_def max_def)
    moreover have "l1_projection 0 b b (b - 1) = Some (0, if 1 < b then 1 else b)"
      by (cases "1 < b") (simp_all add: l1_single_right l1_exit)
    moreover have "a \<noteq> b" using right by auto
    ultimately show ?thesis using right by simp
  next
    case none
    have "l1_projection a b fl 0 = Some (0, 0)"
      using assms none by (subst l1_projection.simps) (simp add: Let_def max_def)
    then show ?thesis by simp
  qed
qed

lemma l1_projection_equal:
  "\<exists>a'. l1_projection a a fl 0 = Some (a', a')"
proof (cases "1 < fl")
  case True
  from l1_projection_total[OF True, of a a] show ?thesis by auto
next
  case False
  then show ?thesis by (simp add: l1_exit)
qed






subsection \<open>\<^verbatim>\<open>coefF\<close> on a multiple of the identity\<close>

lemma singular_values_float_symmetric:
  assumes "4 * (m * m) < float_limit"
  shows "singular_values_float c (Finite m) (Finite 0) (Finite m)
         = (Finite (sqrt (max m 0)), Finite (sqrt (max m 0)))"
proof -
  have "(m + m) * (m + m) < float_limit" using assms by (simp add: algebra_simps)
  then have m2: "\<bar>m + m\<bar> < float_limit" by (rule square_in_range)
  then have m1: "\<bar>m\<bar> < float_limit" by linarith
  have mm: "\<bar>m * m\<bar> < float_limit"
  proof -
    have "0 \<le> m * m" by simp
    then show ?thesis using assms by linarith
  qed
  have T: "Finite m + Finite m = Finite (m + m)"
    using m2 by (simp add: cfloat_ops round_f_in)
  have D: "Finite m * Finite m - Finite 0 * Finite 0 = Finite (m * m)"
    using mm by (simp add: cfloat_ops round_f_in)
  have TT: "Finite (m + m) * Finite (m + m) / Finite 4 = Finite (m * m)"
  proof -
    have "\<bar>(m + m) * (m + m)\<bar> < float_limit"
      using assms by (simp add: algebra_simps abs_mult)
    then have "Finite (m + m) * Finite (m + m) = Finite ((m + m) * (m + m))"
      by (simp add: cfloat_ops round_f_in)
    moreover have "(m + m) * (m + m) / 4 = m * m" by (simp add: algebra_simps)
    ultimately show ?thesis using mm by (simp add: cfloat_ops round_f_in)
  qed
  have det: "fsqrt (MAX_C c (Finite (m * m) - Finite (m * m)) 0) = Finite 0"
    by (simp add: cfloat_ops MAX_C_Finite)
  have T2: "Finite (m + m) / Finite 2 = Finite m"
    using m1 by (simp add: cfloat_ops round_f_in)
  have e: "MAX_C c (Finite m + Finite 0) 0 = Finite (max m 0)"
       "MAX_C c (Finite m - Finite 0) 0 = Finite (max m 0)"
    using m1 by (simp_all add: cfloat_ops round_f_in MAX_C_Finite)
  have s: "round_f (sqrt (max m 0)) = Finite (sqrt (max m 0))"
  proof -
    have "max m 0 < float_limit" using m1 float_limit_gt by linarith
    then have "\<bar>sqrt (max m 0)\<bar> < float_limit" by (intro sqrt_in_range) simp_all
    then show ?thesis by (rule round_f_in)
  qed
  show ?thesis
    unfolding singular_values_float_def eigenvalues_float_def Let_def T D TT det T2 e
    by (simp add: s)
qed


lemma eigenvectors_float_symmetric:
  "eigenvectors_float c (Finite m) (Finite 0) (Finite m) = (0, 1, 1, 0)"
  by (simp add: eigenvectors_float_def cfloat_ops split: prod.splits)

lemma coefF_assemble:
  assumes "\<bar>w\<bar> < float_limit"
  shows "(Finite w * 0 * 0 + Finite w * 1 * 1, Finite w * 0 * 1 + Finite w * 1 * 0,
          Finite w * 1 * 1 + Finite w * 0 * 0) = (Finite w, Finite 0, Finite w)"
  using assms by (simp add: cfloat_ops round_f_in)

lemma quotient_in_range:
  assumes "0 \<le> u" and "u \<le> g" and "0 < g"
  shows "\<bar>u / g\<bar> < float_limit"
proof -
  have "0 \<le> u / g" using assms by simp
  moreover have "u / g \<le> 1" using assms by simp
  ultimately show ?thesis using float_limit_gt by linarith
qed

lemma coefF_symmetric_result:
  assumes sv: "singular_values_float c (Finite m) (Finite 0) (Finite m) = (Finite g, Finite g)"
    and pd: "prox_diag_float c (Finite g) (Finite g) sigma p = Some (Finite u, Finite u)"
    and "0 \<le> u" and "u \<le> g" and "g < float_limit" and "0 \<le> fTiny c"
  shows "\<exists>t0. coefF c (Finite m) (Finite 0) (Finite m) sigma p q r
               = Some (Finite t0, Finite 0, Finite t0)"
proof (cases "fTiny c < g")
  case True
  then have g: "0 < g" using assms(6) by simp
  have w: "\<bar>u / g\<bar> < float_limit" using assms(3,4) g by (rule quotient_in_range)
  have d: "Finite u / Finite g = Finite (u / g)"
    using g w by (simp add: cfloat_ops round_f_in)
  show ?thesis
    unfolding coefF_def sv eigenvectors_float_symmetric
    using True by (simp add: pd Let_def cfloat_ops(6) d coefF_assemble[OF w])
next
  case False
  have w: "\<bar>u\<bar> < float_limit" using assms(3,4,5) by linarith
  show ?thesis
    unfolding coefF_def sv eigenvectors_float_symmetric
    using False by (simp add: pd Let_def cfloat_ops(6) coefF_assemble[OF w])
qed

lemma prox_diag_float_l1_symmetric:
  assumes "0 \<le> g" and "g < float_limit" and "0 < sigma"
  shows "\<exists>u. prox_diag_float c (Finite g) (Finite g) (Finite sigma) 1 = Some (Finite u, Finite u)
             \<and> 0 \<le> u \<and> u \<le> g"
proof (cases "\<bar>1 / sigma\<bar> < float_limit")
  case True
  have d: "1 / Finite sigma = Finite (1 / sigma)"
    using assms(3) True by (simp add: cfloat_ops round_f_in)
  have "\<bar>g - 1 / sigma\<bar> < float_limit"
  proof -
    have "0 < 1 / sigma" using assms(3) by simp
    then show ?thesis using True assms(1,2) by linarith
  qed
  then have "Finite g - Finite (1 / sigma) = Finite (g - 1 / sigma)"
    by (simp add: cfloat_ops round_f_in)
  then have "prox_diag_float c (Finite g) (Finite g) (Finite sigma) 1
             = Some (Finite (max (g - 1 / sigma) 0), Finite (max (g - 1 / sigma) 0))"
    by (simp add: prox_diag_float_def Let_def d MAX_C_Finite cfloat_ops(8))
  moreover have "max (g - 1 / sigma) 0 \<le> g" using assms(1,3) by simp
  ultimately show ?thesis by simp
next
  case False
  have p: "0 < 1 / sigma" using assms(3) by simp
  then have d: "1 / Finite sigma = PInf"
    using assms(3) False by (simp add: cfloat_ops round_f_def)
  have "prox_diag_float c (Finite g) (Finite g) (Finite sigma) 1 = Some (Finite 0, Finite 0)"
    by (simp add: prox_diag_float_def Let_def d minus_cfloat_def MAX_C_def less_cfloat_def
        zero_cfloat_def)
  then show ?thesis using assms(1) by simp
qed


lemma l1_float_exit:
  "\<not> 1 < s \<Longrightarrow> l1_projection_float c a b (Finite s) k = Some (a, b)"
  by (subst l1_projection_float.simps) (simp add: cfloat_ops)

lemma l1_projection_float_symmetric:
  assumes "0 \<le> a" and "2 * a < float_limit"
  shows "\<exists>x. l1_projection_float c (Finite a) (Finite a) (Finite fl) 0
               = Some (Finite x, Finite x) \<and> 0 \<le> x \<and> x \<le> a"
proof (cases "1 < fl")
  case False
  then show ?thesis using assms(1) by (simp add: l1_float_exit)
next
  case True
  have a: "\<bar>a\<bar> < float_limit" "\<bar>2 * a\<bar> < float_limit" using assms by simp_all
  have p: "MAX_C c (Finite a - Finite 0) (Finite 0) = Finite a"
    using a assms(1) by (simp add: cfloat_ops round_f_in MAX_C_Finite)
  have sm: "Finite 0 + \<bar>Finite a\<bar> + \<bar>Finite a\<bar> = Finite (2 * a)"
    using a assms(1) by (simp add: cfloat_ops round_f_in)
  show ?thesis
  proof (cases "a = 0")
    case True
    have "l1_projection_float c (Finite a) (Finite a) (Finite fl) 0 = Some (Finite a, Finite a)"
      using \<open>1 < fl\<close> True
      by (subst l1_projection_float.simps) (simp add: Let_def cfloat_ops MAX_C_Finite)
    then show ?thesis using assms(1) by simp
  next
    case False
    define k where "k = (2 * a - 1) / 2"
    have k: "\<bar>2 * a - 1\<bar> < float_limit" "\<bar>k\<bar> < float_limit"
    proof -
      show "\<bar>2 * a - 1\<bar> < float_limit" using a assms(1) float_limit_gt by linarith
      then show "\<bar>k\<bar> < float_limit" unfolding k_def by simp
    qed
    have sh: "(Finite (2 * a) - Finite 1) / Finite 2 = Finite k"
      using k by (simp add: cfloat_ops round_f_in k_def)
    have one: "l1_projection_float c (Finite a) (Finite a) (Finite fl) 0
               = l1_projection_float c (Finite a) (Finite a) (Finite (2 * a)) (Finite k)"
      using \<open>1 < fl\<close> False
      by (subst l1_projection_float.simps)
         (simp add: Let_def cfloat_ops(6,8,9,10) p sm sh)
    show ?thesis
    proof (cases "1 < 2 * a")
      case False
      then show ?thesis using one assms(1) by (simp add: l1_float_exit)
    next
      case True
      have ak: "a - k = 1 / 2" by (simp add: k_def field_simps)
      have "\<bar>a - k\<bar> < float_limit" unfolding ak using float_limit_gt by simp
      then have "Finite a - Finite k = Finite (1 / 2)"
        by (simp add: cfloat_ops(2) round_f_in ak)
      then have p2: "MAX_C c (Finite a - Finite k) (Finite 0) = Finite (1 / 2)"
        by (simp add: MAX_C_Finite)
      have sm2: "Finite 0 + \<bar>Finite (1 / 2)\<bar> + \<bar>Finite (1 / 2)\<bar> = Finite 1"
        by (simp add: cfloat_ops round_f_def float_limit_def)
      have "l1_projection_float c (Finite a) (Finite a) (Finite (2 * a)) (Finite k)
            = l1_projection_float c (Finite (1 / 2)) (Finite (1 / 2)) (Finite 1)
                ((Finite 1 - Finite 1) / Finite 2)"
        using True
        by (subst l1_projection_float.simps)
           (simp add: Let_def cfloat_ops(6,8,9,10) p2 sm2)
      also have "\<dots> = Some (Finite (1 / 2), Finite (1 / 2))"
        by (simp add: l1_float_exit)
      finally have "l1_projection_float c (Finite a) (Finite a) (Finite fl) 0
                    = Some (Finite (1 / 2), Finite (1 / 2))"
        using one by simp
      moreover have "(0::real) \<le> 1 / 2" "1 / 2 \<le> a" using True by simp_all
      ultimately show ?thesis by blast
    qed
  qed
qed

lemma prox_diag_float_inf_symmetric:
  assumes "0 \<le> g" and "g < float_limit" and "0 < sigma" and "1 / sigma < float_limit"
    and "2 * (sigma * g) < float_limit" and "p = INFNORM c" and "p \<noteq> 1"
  shows "\<exists>u. prox_diag_float c (Finite g) (Finite g) (Finite sigma) p = Some (Finite u, Finite u)
             \<and> 0 \<le> u \<and> u \<le> g"
proof -
  have a0: "0 \<le> sigma * g" using assms(1,3) by simp
  then have a1: "\<bar>sigma * g\<bar> < float_limit" using assms(5) by linarith
  have pr: "Finite sigma * \<bar>Finite g\<bar> = Finite (sigma * g)"
    using a1 assms(1) by (simp add: cfloat_ops round_f_in)
  from l1_projection_float_symmetric[OF a0 assms(5)] obtain x where
    l: "l1_projection_float c (Finite (sigma * g)) (Finite (sigma * g)) (Finite (fLarge c)) 0
          = Some (Finite x, Finite x)"
    and x: "0 \<le> x" "x \<le> sigma * g"
    by blast
  have "\<bar>1 / sigma\<bar> < float_limit" using assms(3,4) by simp
  then have d: "1 / Finite sigma = Finite (1 / sigma)"
    using assms(3) by (simp add: cfloat_ops round_f_in)
  have xs: "0 \<le> 1 / sigma * x" "1 / sigma * x \<le> g"
  proof -
    show "0 \<le> 1 / sigma * x" using x(1) assms(3) by simp
    have "1 / sigma * x \<le> 1 / sigma * (sigma * g)"
      using x(2) assms(3) by (intro mult_left_mono) simp_all
    then show "1 / sigma * x \<le> g" using assms(3) by simp
  qed
  then have "\<bar>1 / sigma * x\<bar> < float_limit" using assms(2) by linarith
  then have m: "Finite (1 / sigma) * Finite x = Finite (1 / sigma * x)"
    by (simp add: cfloat_ops round_f_in)
  have "\<bar>g - 1 / sigma * x\<bar> < float_limit" using xs assms(1,2) by linarith
  then have u: "Finite g - Finite (1 / sigma * x) = Finite (g - 1 / sigma * x)"
    by (simp add: cfloat_ops round_f_in)
  have "prox_diag_float c (Finite g) (Finite g) (Finite sigma) p
        = Some (Finite g - Finite (1 / sigma) * Finite x, Finite g - Finite (1 / sigma) * Finite x)"
    unfolding prox_diag_float_def Let_def pr d
    using assms(6,7) by (simp add: l)
  also have "\<dots> = Some (Finite (g - 1 / sigma * x), Finite (g - 1 / sigma * x))"
    by (simp only: m u)
  finally show ?thesis using xs by auto
qed


text \<open>
  C6, as the code has it. For an input with \<open>M2 = 0\<close> and \<open>M1 = M3\<close> and a step \<open>sigma > 0\<close>, under
  either shrinkage rule (\<open>p = 1\<close> or \<open>p = INFNORM\<close>), \<^verbatim>\<open>coefF\<close> returns a multiple of the
  identity matrix, \<open>t[1] = 0\<close> and \<open>t[0] = t[2]\<close>, provided the arithmetic stays inside
  the range of \<^verbatim>\<open>float\<close>: \<open>(M1 + M3)\<^sup>2 = 4 M1\<^sup>2\<close> is below the overflow threshold,
  \<open>M1 M3 = M1\<^sup>2\<close> is zero or at least the smallest normal \<^verbatim>\<open>float\<close> \<open>2^-126\<close>, and, for
  \<open>p = INFNORM\<close>, \<open>1 / sigma\<close> is below the threshold and the sum \<open>2 sigma sig1\<close> the
  water-filling loop starts from is at most \<open>2^127\<close>. The constant \<^verbatim>\<open>fTiny\<close> must not be
  negative.

  The bound from below is not used by the proof: the model leaves rounding out. It
  keeps the statement to the inputs for which the difference of line 40 is exactly zero
  in the source as well; where \<open>M1 M3\<close> underflows, the rounded values of \<open>T * T / 4\<close> and
  \<open>M1 M3\<close> can differ there, and the claim is not made.
\<close>

theorem C6_identity_multiple:
  assumes "M2 = 0" and "M1 = M3" and "0 < sigma" and "0 \<le> fTiny c"
    and "4 * (M1 * M1) < float_limit" and "M1 = 0 \<or> 1 / 2 ^ 126 \<le> M1 * M1"
    and "p = 1 \<or> (p = INFNORM c \<and> 1 / sigma < float_limit
                    \<and> 2 * (sigma * sqrt (max M1 0)) \<le> 2 ^ 127)"
  shows "\<exists>t0. coefF c (Finite M1) (Finite M2) (Finite M3) (Finite sigma) p q r
               = Some (Finite t0, Finite 0, Finite t0)"
proof -
  define g where "g = sqrt (max M1 0)"
  have sv: "singular_values_float c (Finite M1) (Finite 0) (Finite M1) = (Finite g, Finite g)"
    unfolding g_def using assms(5) by (rule singular_values_float_symmetric)
  have g0: "0 \<le> g" by (simp add: g_def)
  have g1: "g < float_limit"
  proof -
    have "(M1 + M1) * (M1 + M1) < float_limit" using assms(5) by (simp add: algebra_simps)
    then have "\<bar>M1 + M1\<bar> < float_limit" by (rule square_in_range)
    then have "max M1 0 < float_limit" using float_limit_gt by linarith
    then have "\<bar>sqrt (max M1 0)\<bar> < float_limit" by (intro sqrt_in_range) simp_all
    then show ?thesis by (simp add: g_def)
  qed
  have "\<exists>u. prox_diag_float c (Finite g) (Finite g) (Finite sigma) p = Some (Finite u, Finite u)
             \<and> 0 \<le> u \<and> u \<le> g"
  proof (cases "p = 1")
    case True
    then show ?thesis using prox_diag_float_l1_symmetric[OF g0 g1 assms(3)] by simp
  next
    case False
    with assms(7) have "p = INFNORM c" "1 / sigma < float_limit" "2 * (sigma * g) < float_limit"
      using float_limit_above by (simp_all add: g_def)
    then show ?thesis using False
      by (intro prox_diag_float_inf_symmetric[OF g0 g1 assms(3)])
  qed
  then obtain u where
    "prox_diag_float c (Finite g) (Finite g) (Finite sigma) p = Some (Finite u, Finite u)"
    "0 \<le> u" "u \<le> g" by blast
  from coefF_symmetric_result[OF sv this g1 assms(4)] show ?thesis
    by (simp add: assms(1,2)[symmetric])
qed

theorem C6_identity_multiple_witness:
  "(0::real) = 0 \<and> (4::real) = 4 \<and> (0::real) < 1 \<and> 0 \<le> fTiny sample_consts
   \<and> 4 * (4 * 4) < float_limit \<and> (1::real) / 2 ^ 126 \<le> 4 * 4
   \<and> 1 / 1 < float_limit \<and> 2 * (1 * sqrt (max 4 0)) \<le> (2::real) ^ 127
   \<and> coefF sample_consts (Finite 4) (Finite 0) (Finite 4) (Finite 1) 1 1 0
       = Some (Finite (1 / 2), Finite 0, Finite (1 / 2))
   \<and> coefF sample_consts (Finite 4) (Finite 0) (Finite 4) (Finite 1) (INFNORM sample_consts) 1 0
       = Some (Finite (3 / 4), Finite 0, Finite (3 / 4))"
proof -
  have a: "coefF sample_consts (Finite 4) (Finite 0) (Finite 4) (Finite 1) 1 1 0
           = Some (Finite (1 / 2), Finite 0, Finite (1 / 2))"
    by (simp add: prox_defs sample_consts_def Let_def)
  have "l1_projection_float sample_consts (Finite 2) (Finite 2) (Finite 100000000) (Finite 0)
        = l1_projection_float sample_consts (Finite 2) (Finite 2) (Finite 4) (Finite (3 / 2))"
    by (subst l1_projection_float.simps) (simp add: float_defs Let_def)
  also have "\<dots> = l1_projection_float sample_consts (Finite (1 / 2)) (Finite (1 / 2)) (Finite 1)
                      (Finite 0)"
    by (subst l1_projection_float.simps) (simp add: float_defs Let_def)
  finally have "l1_projection_float sample_consts (Finite 2) (Finite 2) (Finite 100000000) (Finite 0)
                = Some (Finite (1 / 2), Finite (1 / 2))"
    by (simp add: l1_float_exit)
  then have b: "coefF sample_consts (Finite 4) (Finite 0) (Finite 4) (Finite 1)
                  (INFNORM sample_consts) 1 0 = Some (Finite (3 / 4), Finite 0, Finite (3 / 4))"
    by (simp add: prox_defs sample_consts_def Let_def)
  have r: "4 * (4 * 4) < float_limit" "1 / 1 < float_limit"
    "2 * (1 * sqrt (max 4 0)) \<le> (2::real) ^ 127" "0 \<le> fTiny sample_consts"
    "(1::real) / 2 ^ 126 \<le> 4 * 4"
    by (simp_all add: float_limit_def sample_consts_def)
  have "\<exists>t0. coefF sample_consts (Finite 4) (Finite 0) (Finite 4) (Finite 1) 1 1 0
               = Some (Finite t0, Finite 0, Finite t0)"
    using C6_identity_multiple[of 0 4 4 1 sample_consts 1 1 0] r by simp
  moreover have "\<exists>t0. coefF sample_consts (Finite 4) (Finite 0) (Finite 4) (Finite 1)
                        (INFNORM sample_consts) 1 0 = Some (Finite t0, Finite 0, Finite t0)"
    using C6_identity_multiple[of 0 4 4 1 sample_consts "INFNORM sample_consts" 1 0] r by simp
  ultimately show ?thesis using a b r by simp
qed

text \<open>
  The claim as it stands, for every input, fails where the range is left: for the
  \<^verbatim>\<open>float\<close> nearest to \<open>10^19\<close> on the diagonal, \<open>M2 = 0\<close> and \<open>sigma = 1\<close>, the product
  \<open>T * T\<close> of line 40 overflows, \<^verbatim>\<open>sig1\<close> is infinite, line 128 divides an infinity by
  an infinity, and all three entries of \<open>t\<close> are NaNs, for which \<open>t[1] == 0\<close> and
  \<open>t[0] == t[2]\<close> are false: under \<open>p = 1\<close>, and under \<open>p = INFNORM\<close> with either spelling
  of \<^verbatim>\<open>MAX\<close>.
\<close>

theorem C6_counterexample:
  "coefF sample_consts (Finite (9094947 * 2 ^ 40)) (Finite 0) (Finite (9094947 * 2 ^ 40)) (Finite 1)
     1 1 0 = Some (NaN, NaN, NaN)
   \<and> coefF sample_consts (Finite (9094947 * 2 ^ 40)) (Finite 0) (Finite (9094947 * 2 ^ 40))
       (Finite 1) (INFNORM sample_consts) 1 0 = Some (NaN, NaN, NaN)
   \<and> coefF sample_consts2 (Finite (9094947 * 2 ^ 40)) (Finite 0) (Finite (9094947 * 2 ^ 40))
       (Finite 1) (INFNORM sample_consts2) 1 0 = Some (NaN, NaN, NaN)
   \<and> f_ne NaN 0 \<and> f_ne NaN NaN
   \<and> singular_values_float sample_consts (Finite (9094947 * 2 ^ 40)) (Finite 0)
        (Finite (9094947 * 2 ^ 40)) = (PInf, Finite 0)"
proof -
  let ?m = "Finite (9094947 * 2 ^ 40)"
  have s: "singular_values_float c ?m (Finite 0) ?m = (PInf, Finite 0)" for c
    by (simp add: singular_values_float_def eigenvalues_float_def float_defs Let_def)
  have v: "eigenvectors_float c ?m (Finite 0) ?m = (Finite 0, Finite 1, Finite 1, Finite 0)" for c
    by (simp add: eigenvectors_float_def eigenvalues_float_def float_defs Let_def)
  have a: "coefF sample_consts ?m (Finite 0) ?m (Finite 1) 1 1 0 = Some (NaN, NaN, NaN)"
    unfolding coefF_def s v
    by (simp add: prox_diag_float_def float_defs Let_def sample_consts_def)
  have "l1_projection_float sample_consts PInf (Finite 0) (Finite 100000000) (Finite 0)
        = l1_projection_float sample_consts PInf (Finite 0) PInf PInf"
    by (subst l1_projection_float.simps) (simp add: float_defs Let_def)
  also have "\<dots> = Some (Finite 0, Finite 0)"
    by (subst l1_projection_float.simps) (simp add: float_defs Let_def sample_consts_def)
  finally have b: "coefF sample_consts ?m (Finite 0) ?m (Finite 1) (INFNORM sample_consts) 1 0
                   = Some (NaN, NaN, NaN)"
    unfolding coefF_def s v
    by (simp add: prox_diag_float_def float_defs Let_def sample_consts_def)
  have "l1_projection_float sample_consts2 PInf (Finite 0) (Finite 100000000) (Finite 0)
        = l1_projection_float sample_consts2 PInf (Finite 0) PInf PInf"
    by (subst l1_projection_float.simps) (simp add: float_defs Let_def)
  also have "\<dots> = l1_projection_float sample_consts2 NaN (Finite 0) NaN NaN"
    by (subst l1_projection_float.simps)
       (simp add: float_defs Let_def sample_consts_def sample_consts2_def)
  also have "\<dots> = Some (NaN, Finite 0)"
    by (subst l1_projection_float.simps) (simp add: float_defs Let_def)
  finally have c: "coefF sample_consts2 ?m (Finite 0) ?m (Finite 1) (INFNORM sample_consts2) 1 0
                   = Some (NaN, NaN, NaN)"
    unfolding coefF_def s v
    by (simp add: prox_diag_float_def float_defs Let_def sample_consts_def sample_consts2_def)
  show ?thesis using a b c s[of sample_consts] by (simp add: f_ne_def)
qed



section \<open>Inside the range \<^verbatim>\<open>coefF\<close> computes in exact arithmetic\<close>

text \<open>
  As long as no result leaves the range of \<^verbatim>\<open>float\<close>, the stages of \<^verbatim>\<open>coefF\<close> on
  \<^verbatim>\<open>float\<close> values give what the stages in exact arithmetic give. This is shown for the
  water-filling loop from any state in the range, and for the whole function on inputs
  of moderate size.
\<close>

subsection \<open>The water-filling loop\<close>

lemma l1_float_pass:
  assumes "1 < s" and "0 \<le> a" and "0 \<le> b" and "a + b < float_limit" and "0 \<le> k"
    and "k < float_limit"
  shows "l1_projection_float c (Finite a) (Finite b) (Finite s) (Finite k) =
           (let p0 = max (a - k) 0;
                p1 = max (b - k) 0;
                sum_n = 0 + \<bar>p0\<bar> + \<bar>p1\<bar>;
                num = (if p0 \<noteq> 0 then 1 else 0) + (if p1 \<noteq> 0 then 1 else (0::int))
            in if num > 0
               then l1_projection_float c (Finite p0) (Finite p1) (Finite sum_n)
                      (Finite ((sum_n - 1) / real_of_int num))
               else Some (Finite p0, Finite p1))"
proof -
  define p0 where "p0 = max (a - k) 0"
  define p1 where "p1 = max (b - k) 0"
  define num where "num = (if p0 \<noteq> 0 then 1 else 0) + (if p1 \<noteq> 0 then 1 else (0::int))"
  have p: "0 \<le> p0" "p0 \<le> a" "0 \<le> p1" "p1 \<le> b"
    using assms(2,3,5) by (simp_all add: p0_def p1_def)
  have a: "a < float_limit" "b < float_limit" using assms(2,3,4) by linarith+
  have "\<bar>a - k\<bar> < float_limit" "\<bar>b - k\<bar> < float_limit"
    using a assms(2,3,5,6) by linarith+
  then have m: "MAX_C c (Finite a - Finite k) (Finite 0) = Finite p0"
               "MAX_C c (Finite b - Finite k) (Finite 0) = Finite p1"
    by (simp_all add: cfloat_ops(2) round_f_in MAX_C_Finite p0_def p1_def)
  have "\<bar>p0\<bar> < float_limit" "\<bar>p0 + p1\<bar> < float_limit"
    using p assms(4) by linarith+
  then have sm: "Finite 0 + \<bar>Finite p0\<bar> + \<bar>Finite p1\<bar> = Finite (p0 + p1)"
    using p by (simp add: cfloat_ops round_f_in)
  have s1: "\<bar>p0 + p1 - 1\<bar> < float_limit"
    using p assms(4) float_limit_gt by linarith
  have sh: "(Finite (p0 + p1) - Finite 1) / Finite (real_of_int num)
            = Finite ((p0 + p1 - 1) / real_of_int num)" if "0 < num"
  proof -
    have n: "num = 1 \<or> num = 2" using that by (auto simp: num_def split: if_splits)
    then have "\<bar>(p0 + p1 - 1) / real_of_int num\<bar> \<le> \<bar>p0 + p1 - 1\<bar>" by auto
    then have "\<bar>(p0 + p1 - 1) / real_of_int num\<bar> < float_limit" using s1 by linarith
    moreover have "real_of_int num \<noteq> 0" using n by auto
    ultimately show ?thesis using s1 by (simp add: cfloat_ops(2,4) round_f_in)
  qed
  have nn: "((if f_ne (Finite p0) (Finite 0) then 1 else 0)
             + (if f_ne (Finite p1) (Finite 0) then 1 else (0::int))) = num"
    by (simp add: cfloat_ops(10) num_def)
  have "l1_projection_float c (Finite a) (Finite b) (Finite s) (Finite k) =
          (if 0 < num
           then l1_projection_float c (Finite p0) (Finite p1) (Finite (p0 + p1))
                  (Finite ((p0 + p1 - 1) / real_of_int num))
           else Some (Finite p0, Finite p1))"
    using assms(1) sh
    by (subst l1_projection_float.simps)
       (simp add: cfloat_ops(6,8,9) m sm nn Let_def)
  then show ?thesis
    using p by (simp add: Let_def p0_def[symmetric] p1_def[symmetric] num_def[symmetric])
qed


lemma l1_projection_float_exact:
  assumes "l1_projection a b s k = Some r"
    and "0 \<le> a" and "0 \<le> b" and "a + b < float_limit" and "k < float_limit"
    and "1 < s \<longrightarrow> 0 \<le> k"
  shows "l1_projection_float c (Finite a) (Finite b) (Finite s) (Finite k)
         = Some (Finite (fst r), Finite (snd r))"
proof -
  have "0 \<le> a \<and> 0 \<le> b \<and> a + b < float_limit \<and> k < float_limit \<and> (1 < s \<longrightarrow> 0 \<le> k)
        \<longrightarrow> l1_projection_float c (Finite a) (Finite b) (Finite s) (Finite k)
              = Some (Finite (fst r), Finite (snd r))"
  proof (rule l1_projection.raw_induct[OF _ assms(1)], intro impI, elim conjE)
    fix f :: "real \<Rightarrow> real \<Rightarrow> real \<Rightarrow> real \<Rightarrow> (real \<times> real) option"
      and a b s k :: real and r :: "real \<times> real"
    assume ih: "\<And>a b s k y. f a b s k = Some y \<Longrightarrow>
                 0 \<le> a \<and> 0 \<le> b \<and> a + b < float_limit \<and> k < float_limit \<and> (1 < s \<longrightarrow> 0 \<le> k)
                 \<longrightarrow> l1_projection_float c (Finite a) (Finite b) (Finite s) (Finite k)
                       = Some (Finite (fst y), Finite (snd y))"
      and e: "(if 1 < s
               then let p0 = max (a - k) 0; p1 = max (b - k) 0; sum_n = 0 + \<bar>p0\<bar> + \<bar>p1\<bar>;
                        num = (if p0 \<noteq> 0 then 1 else 0) + (if p1 \<noteq> 0 then 1 else 0)
                    in if 0 < num then f p0 p1 sum_n ((sum_n - 1) / real_of_int num)
                       else Some (p0, p1)
               else Some (a, b)) = Some r"
      and i: "0 \<le> a" "0 \<le> b" "a + b < float_limit" "k < float_limit" "1 < s \<longrightarrow> 0 \<le> k"
    show "l1_projection_float c (Finite a) (Finite b) (Finite s) (Finite k)
          = Some (Finite (fst r), Finite (snd r))"
    proof (cases "1 < s")
      case False
      then show ?thesis using e by (auto simp: l1_float_exit)
    next
      case True
      then have k: "0 \<le> k" using i(5) by simp
      define p0 where "p0 = max (a - k) 0"
      define p1 where "p1 = max (b - k) 0"
      define num where "num = (if p0 \<noteq> 0 then 1 else 0) + (if p1 \<noteq> 0 then 1 else (0::int))"
      define k' where "k' = (0 + \<bar>p0\<bar> + \<bar>p1\<bar> - 1) / real_of_int num"
      have p: "0 \<le> p0" "p0 \<le> a" "0 \<le> p1" "p1 \<le> b"
        using i(1,2) k by (simp_all add: p0_def p1_def)
      have fl: "l1_projection_float c (Finite a) (Finite b) (Finite s) (Finite k) =
                  (if num > 0
                   then l1_projection_float c (Finite p0) (Finite p1) (Finite (0 + \<bar>p0\<bar> + \<bar>p1\<bar>))
                          (Finite k')
                   else Some (Finite p0, Finite p1))"
        using l1_float_pass[OF True i(1,2,3) k i(4), of c]
        by (simp only: Let_def p0_def[symmetric] p1_def[symmetric] num_def[symmetric]
              k'_def[symmetric])
      from e True have ex: "(if 0 < num then f p0 p1 (0 + \<bar>p0\<bar> + \<bar>p1\<bar>) k' else Some (p0, p1)) = Some r"
        by (simp only: Let_def p0_def[symmetric] p1_def[symmetric] num_def[symmetric]
              k'_def[symmetric] if_True)
      show ?thesis
      proof (cases "0 < num")
        case False
        then show ?thesis using fl ex by auto
      next
        case True
        then have r: "f p0 p1 (0 + \<bar>p0\<bar> + \<bar>p1\<bar>) k' = Some r" using ex by simp
        have n: "num = 1 \<or> num = 2" using True by (auto simp: num_def split: if_splits)
        have k1: "k' < float_limit"
        proof -
          have "k' \<le> \<bar>p0 + p1 - 1\<bar>"
          proof -
            have "(p0 + p1 - 1) / real_of_int num \<le> \<bar>(p0 + p1 - 1) / real_of_int num\<bar>"
              by (rule abs_ge_self)
            also have "\<dots> \<le> \<bar>p0 + p1 - 1\<bar>" using n by auto
            finally show ?thesis using p by (simp add: k'_def)
          qed
          moreover have "\<bar>p0 + p1 - 1\<bar> < float_limit"
            using p i(3) float_limit_gt by linarith
          ultimately show ?thesis by linarith
        qed
        have k2: "1 < 0 + \<bar>p0\<bar> + \<bar>p1\<bar> \<longrightarrow> 0 \<le> k'"
          using n p by (auto simp: k'_def)
        have "0 \<le> p0 \<and> 0 \<le> p1 \<and> p0 + p1 < float_limit \<and> k' < float_limit
              \<and> (1 < 0 + \<bar>p0\<bar> + \<bar>p1\<bar> \<longrightarrow> 0 \<le> k')"
          using p i(3) k1 k2 by simp
        with ih[OF r] show ?thesis using fl True by simp
      qed
    qed
  qed
  then show ?thesis using assms by simp
qed


subsection \<open>Eigenvalues, singular values and eigenvectors\<close>

lemma range_bounds:
  "(2::real) ^ 60 * 2 ^ 60 * 4 < float_limit" "(2::real) ^ 60 * 4 < float_limit"
  "(2::real) ^ 64 < float_limit" "(2::real) ^ 127 < float_limit"
  by (simp_all add: float_limit_def)

lemma abs_mult_le:
  fixes x y a b :: real
  assumes "\<bar>x\<bar> \<le> a" and "\<bar>y\<bar> \<le> b"
  shows "\<bar>x * y\<bar> \<le> a * b"
proof -
  have "0 \<le> a" using assms(1) by linarith
  then show ?thesis unfolding abs_mult using assms by (intro mult_mono) simp_all
qed

lemma eigenvalues_float_exact:
  assumes "\<bar>M1\<bar> \<le> 2 ^ 60" and "\<bar>M2\<bar> \<le> 2 ^ 60" and "\<bar>M3\<bar> \<le> 2 ^ 60"
  shows "eigenvalues_float c (Finite M1) (Finite M2) (Finite M3)
         = (Finite (fst (eigenvalues M1 M2 M3)), Finite (snd (eigenvalues M1 M2 M3)))"
    and "\<bar>fst (eigenvalues M1 M2 M3)\<bar> \<le> 2 ^ 60 * 3"
    and "\<bar>snd (eigenvalues M1 M2 M3)\<bar> \<le> 2 ^ 60 * 3"
proof -
  let ?B = "(2::real) ^ 60"
  let ?T = "M1 + M3"
  let ?D = "M1 * M3 - M2 * M2"
  let ?X = "?T * ?T / 4 - ?D"
  let ?det = "sqrt (max ?X 0)"
  note rb = range_bounds
  have t: "\<bar>?T\<bar> \<le> ?B * 2" using assms(1,3) by linarith
  have a: "\<bar>M1 * M3\<bar> \<le> ?B * ?B" using assms(1,3) by (rule abs_mult_le)
  have b: "\<bar>M2 * M2\<bar> \<le> ?B * ?B" using assms(2,2) by (rule abs_mult_le)
  have d: "\<bar>?D\<bar> \<le> ?B * ?B * 2" using a b by linarith
  have tt: "\<bar>?T * ?T\<bar> \<le> ?B * ?B * 4"
    using abs_mult_le[OF t t] by (simp add: algebra_simps)
  then have q: "\<bar>?T * ?T / 4\<bar> \<le> ?B * ?B" by simp
  have x: "\<bar>?X\<bar> \<le> ?B * ?B * 3" using q d by linarith
  have dt0: "0 \<le> ?det" by simp
  have dt: "?det \<le> ?B * 2"
  proof (rule real_le_lsqrt)
    show "0 \<le> ?B * 2" by simp
    have "max ?X 0 \<le> ?B * ?B * 3" using x by linarith
    also have "\<dots> \<le> (?B * 2)\<^sup>2" by (simp add: power2_eq_square)
    finally show "max ?X 0 \<le> (?B * 2)\<^sup>2" .
  qed
  have h: "\<bar>?T / 2\<bar> \<le> ?B" using t by simp
  have e1: "\<bar>?T / 2 + ?det\<bar> \<le> ?B * 3" using h dt dt0 by linarith
  have e2: "\<bar>?T / 2 - ?det\<bar> \<le> ?B * 3" using h dt dt0 by linarith
  have s1: "Finite M1 + Finite M3 = Finite ?T"
    using t rb by (intro trans[OF cfloat_ops(1)] round_f_in) linarith
  have s2: "Finite M1 * Finite M3 = Finite (M1 * M3)"
    using a rb by (intro trans[OF cfloat_ops(3)] round_f_in) linarith
  have s3: "Finite M2 * Finite M2 = Finite (M2 * M2)"
    using b rb by (intro trans[OF cfloat_ops(3)] round_f_in) linarith
  have s4: "Finite (M1 * M3) - Finite (M2 * M2) = Finite ?D"
    using d rb by (intro trans[OF cfloat_ops(2)] round_f_in) linarith
  have s5: "Finite ?T * Finite ?T = Finite (?T * ?T)"
    using tt rb by (intro trans[OF cfloat_ops(3)] round_f_in) linarith
  have s6: "Finite (?T * ?T) / Finite 4 = Finite (?T * ?T / 4)"
    using q rb by (intro trans[OF cfloat_ops(4)] round_f_in) (simp, linarith)
  have s7: "Finite (?T * ?T / 4) - Finite ?D = Finite ?X"
    using x rb by (intro trans[OF cfloat_ops(2)] round_f_in) linarith
  have s8: "fsqrt (Finite (max ?X 0)) = Finite ?det"
    using dt dt0 rb by (intro trans[OF cfloat_ops(7)] round_f_in) (simp, linarith)
  have s9: "Finite ?T / Finite 2 = Finite (?T / 2)"
    using h rb by (intro trans[OF cfloat_ops(4)] round_f_in) (simp, linarith)
  have s10: "Finite (?T / 2) + Finite ?det = Finite (?T / 2 + ?det)"
    using e1 rb by (intro trans[OF cfloat_ops(1)] round_f_in) linarith
  have s11: "Finite (?T / 2) - Finite ?det = Finite (?T / 2 - ?det)"
    using e2 rb by (intro trans[OF cfloat_ops(2)] round_f_in) linarith
  show "eigenvalues_float c (Finite M1) (Finite M2) (Finite M3)
         = (Finite (fst (eigenvalues M1 M2 M3)), Finite (snd (eigenvalues M1 M2 M3)))"
    unfolding eigenvalues_float_def eigenvalues_def Let_def fst_conv snd_conv
      s1 s2 s3 s4 s5 s6 s7 cfloat_ops(8) MAX_C_Finite s8 s9 s10 s11 ..
  show "\<bar>fst (eigenvalues M1 M2 M3)\<bar> \<le> 2 ^ 60 * 3"
    unfolding eigenvalues_def Let_def fst_conv using e1 by linarith
  show "\<bar>snd (eigenvalues M1 M2 M3)\<bar> \<le> 2 ^ 60 * 3"
    unfolding eigenvalues_def Let_def snd_conv using e2 by linarith
qed


lemma singular_values_float_exact:
  assumes "\<bar>M1\<bar> \<le> 2 ^ 60" and "\<bar>M2\<bar> \<le> 2 ^ 60" and "\<bar>M3\<bar> \<le> 2 ^ 60"
  shows "singular_values_float c (Finite M1) (Finite M2) (Finite M3)
         = (Finite (fst (singular_values M1 M2 M3)), Finite (snd (singular_values M1 M2 M3)))"
    and "0 \<le> fst (singular_values M1 M2 M3)" and "fst (singular_values M1 M2 M3) \<le> 2 ^ 31"
    and "0 \<le> snd (singular_values M1 M2 M3)" and "snd (singular_values M1 M2 M3) \<le> 2 ^ 31"
proof -
  obtain e1 e2 where e: "eigenvalues M1 M2 M3 = (e1, e2)" by (cases "eigenvalues M1 M2 M3")
  note ev = eigenvalues_float_exact(1)[OF assms, of c, unfolded e fst_conv snd_conv]
    eigenvalues_float_exact(2,3)[OF assms, unfolded e fst_conv snd_conv]
  have n: "0 \<le> e1" "0 \<le> e2"
    using e by (auto simp: eigenvalues_def Let_def)
  have b: "sqrt e1 \<le> 2 ^ 31" "sqrt e2 \<le> 2 ^ 31"
  proof -
    have "e1 \<le> (2 ^ 31)\<^sup>2" "e2 \<le> (2 ^ 31)\<^sup>2" using ev(2,3) by simp_all
    then show "sqrt e1 \<le> 2 ^ 31" "sqrt e2 \<le> 2 ^ 31" by (auto intro: real_le_lsqrt)
  qed
  have r: "\<bar>sqrt e1\<bar> < float_limit" "\<bar>sqrt e2\<bar> < float_limit"
    using b n range_bounds(3) by simp_all
  have s: "fsqrt (Finite e1) = Finite (sqrt e1)" "fsqrt (Finite e2) = Finite (sqrt e2)"
    using n r[THEN round_f_in] by (simp_all add: cfloat_ops(7))
  show "singular_values_float c (Finite M1) (Finite M2) (Finite M3)
         = (Finite (fst (singular_values M1 M2 M3)), Finite (snd (singular_values M1 M2 M3)))"
    unfolding singular_values_float_def singular_values_def ev(1) e prod.case s fst_conv snd_conv ..
  show "0 \<le> fst (singular_values M1 M2 M3)" "fst (singular_values M1 M2 M3) \<le> 2 ^ 31"
       "0 \<le> snd (singular_values M1 M2 M3)" "snd (singular_values M1 M2 M3) \<le> 2 ^ 31"
    using n b by (simp_all add: singular_values_def e)
qed


lemma abs_le_sqrt_squares:
  fixes x y :: real
  shows "\<bar>x\<bar> \<le> sqrt (x * x + y * y)" and "\<bar>y\<bar> \<le> sqrt (x * x + y * y)"
proof -
  have "\<bar>x\<bar> = sqrt (x * x)" by simp
  also have "\<dots> \<le> sqrt (x * x + y * y)" by (rule real_sqrt_le_mono) simp
  finally show "\<bar>x\<bar> \<le> sqrt (x * x + y * y)" .
  have "\<bar>y\<bar> = sqrt (y * y)" by simp
  also have "\<dots> \<le> sqrt (x * x + y * y)" by (rule real_sqrt_le_mono) simp
  finally show "\<bar>y\<bar> \<le> sqrt (x * x + y * y)" .
qed

text \<open>One normalised eigenvector: lines 55--68.\<close>

lemma eigenvector_float_exact:
  fixes v0 v1 :: real
  assumes "\<bar>v0\<bar> \<le> 2 ^ 60" and "\<bar>v1\<bar> \<le> 2 ^ 60 * 4" and "0 \<le> tiny"
  shows "fsqrt (Finite v0 * Finite v0 + Finite v1 * Finite v1) = Finite (sqrt (v0 * v0 + v1 * v1))"
    and "tiny < sqrt (v0 * v0 + v1 * v1) \<Longrightarrow>
           Finite v1 / Finite (sqrt (v0 * v0 + v1 * v1)) = Finite (v1 / sqrt (v0 * v0 + v1 * v1))
           \<and> Finite v0 / Finite (sqrt (v0 * v0 + v1 * v1)) = Finite (v0 / sqrt (v0 * v0 + v1 * v1))
           \<and> \<bar>v1 / sqrt (v0 * v0 + v1 * v1)\<bar> \<le> 1 \<and> \<bar>v0 / sqrt (v0 * v0 + v1 * v1)\<bar> \<le> 1"
proof -
  let ?B = "(2::real) ^ 60"
  let ?mu = "sqrt (v0 * v0 + v1 * v1)"
  have a: "\<bar>v0 * v0\<bar> \<le> ?B * ?B" using assms(1,1) by (rule abs_mult_le)
  have "\<bar>v1 * v1\<bar> \<le> ?B * 4 * (?B * 4)" using assms(2,2) by (rule abs_mult_le)
  then have b: "\<bar>v1 * v1\<bar> \<le> 16 * (?B * ?B)" by simp
  have n: "0 \<le> v0 * v0 + v1 * v1" by simp
  have l: "(17::real) * (2 ^ 60 * 2 ^ 60) < float_limit" by (simp add: float_limit_def)
  have c: "\<bar>v0 * v0 + v1 * v1\<bar> < float_limit"
  proof -
    have "\<bar>v0 * v0 + v1 * v1\<bar> \<le> \<bar>v0 * v0\<bar> + \<bar>v1 * v1\<bar>" by (rule abs_triangle_ineq)
    also have "\<dots> \<le> 17 * (?B * ?B)" using a b by linarith
    finally show ?thesis using l by linarith
  qed
  have s1: "Finite v0 * Finite v0 = Finite (v0 * v0)"
    using a l by (intro trans[OF cfloat_ops(3)] round_f_in) linarith
  have s2: "Finite v1 * Finite v1 = Finite (v1 * v1)"
    using b l by (intro trans[OF cfloat_ops(3)] round_f_in) linarith
  have s3: "Finite (v0 * v0) + Finite (v1 * v1) = Finite (v0 * v0 + v1 * v1)"
    using c by (intro trans[OF cfloat_ops(1)] round_f_in)
  have "v0 * v0 + v1 * v1 < float_limit" using c by linarith
  then have m: "\<bar>?mu\<bar> < float_limit" using n by (intro sqrt_in_range)
  show s4: "fsqrt (Finite v0 * Finite v0 + Finite v1 * Finite v1) = Finite ?mu"
    unfolding s1 s2 s3 using n m by (intro trans[OF cfloat_ops(7)] round_f_in)
  assume t: "tiny < ?mu"
  then have p: "0 < ?mu" using assms(3) by linarith
  have q: "\<bar>v1 / ?mu\<bar> \<le> 1" "\<bar>v0 / ?mu\<bar> \<le> 1"
  proof -
    have "\<bar>v1 / ?mu\<bar> = \<bar>v1\<bar> / ?mu" "\<bar>v0 / ?mu\<bar> = \<bar>v0\<bar> / ?mu"
      using p by (simp_all only: abs_divide abs_of_pos)
    moreover have "\<bar>v1\<bar> / ?mu \<le> 1" "\<bar>v0\<bar> / ?mu \<le> 1"
      using abs_le_sqrt_squares[where x = v0 and y = v1] p by (simp_all only: divide_le_eq_1_pos)
    ultimately show "\<bar>v1 / ?mu\<bar> \<le> 1" "\<bar>v0 / ?mu\<bar> \<le> 1" by simp_all
  qed
  have "Finite v1 / Finite ?mu = Finite (v1 / ?mu)" "Finite v0 / Finite ?mu = Finite (v0 / ?mu)"
    using p q float_limit_gt
    by (intro trans[OF cfloat_ops(4)] round_f_in; linarith)+
  then show "Finite v1 / Finite ?mu = Finite (v1 / ?mu) \<and> Finite v0 / Finite ?mu = Finite (v0 / ?mu)
             \<and> \<bar>v1 / ?mu\<bar> \<le> 1 \<and> \<bar>v0 / ?mu\<bar> \<le> 1"
    using q by simp
qed


lemma eigenvectors_float_exact:
  assumes "\<bar>M1\<bar> \<le> 2 ^ 60" and "\<bar>M2\<bar> \<le> 2 ^ 60" and "\<bar>M3\<bar> \<le> 2 ^ 60" and "0 \<le> fTiny c"
  shows "eigenvectors_float c (Finite M1) (Finite M2) (Finite M3)
         = (case eigenvectors c M1 M2 M3 of
              (V1, V2, V3, V4) \<Rightarrow> (Finite V1, Finite V2, Finite V3, Finite V4))"
    and "case eigenvectors c M1 M2 M3 of
           (V1, V2, V3, V4) \<Rightarrow> \<bar>V1\<bar> \<le> 1 \<and> \<bar>V2\<bar> \<le> 1 \<and> \<bar>V3\<bar> \<le> 1 \<and> \<bar>V4\<bar> \<le> 1"
proof -
  obtain e1 e2 where e: "eigenvalues M1 M2 M3 = (e1, e2)" by (cases "eigenvalues M1 M2 M3")
  note ev = eigenvalues_float_exact(1)[OF assms(1-3), of c, unfolded e fst_conv snd_conv]
  note eb = eigenvalues_float_exact(2,3)[OF assms(1-3), unfolded e fst_conv snd_conv]
  let ?mu1 = "sqrt (M2 * M2 + (e1 - M3) * (e1 - M3))"
  let ?mu2 = "sqrt (M2 * M2 + (e2 - M3) * (e2 - M3))"
  have b: "\<bar>e1 - M3\<bar> \<le> 2 ^ 60 * 4" "\<bar>e2 - M3\<bar> \<le> 2 ^ 60 * 4"
    using eb assms(3) by linarith+
  have v: "Finite e1 - Finite M3 = Finite (e1 - M3)" "Finite e2 - Finite M3 = Finite (e2 - M3)"
    using b range_bounds(2) by (intro trans[OF cfloat_ops(2)] round_f_in; linarith)+
  note m1 = eigenvector_float_exact[OF assms(2) b(1) assms(4)]
  note m2 = eigenvector_float_exact[OF assms(2) b(2) assms(4)]
  have both: "eigenvectors_float c (Finite M1) (Finite M2) (Finite M3)
         = (case eigenvectors c M1 M2 M3 of
              (V1, V2, V3, V4) \<Rightarrow> (Finite V1, Finite V2, Finite V3, Finite V4))
        \<and> (case eigenvectors c M1 M2 M3 of
           (V1, V2, V3, V4) \<Rightarrow> \<bar>V1\<bar> \<le> 1 \<and> \<bar>V2\<bar> \<le> 1 \<and> \<bar>V3\<bar> \<le> 1 \<and> \<bar>V4\<bar> \<le> 1)"
  proof (cases "M2 = 0")
    case True
    then show ?thesis
      by (simp add: eigenvectors_float_def eigenvectors_def ev e cfloat_ops(6,8,9,10))
  next
    case False
    have u: "eigenvectors_float c (Finite M1) (Finite M2) (Finite M3)
             = ((if fTiny c < ?mu1 then Finite (e1 - M3) / Finite ?mu1 else Finite 0),
                (if fTiny c < ?mu2 then Finite (e2 - M3) / Finite ?mu2 else Finite 0),
                (if fTiny c < ?mu1 then Finite M2 / Finite ?mu1 else Finite 0),
                (if fTiny c < ?mu2 then Finite M2 / Finite ?mu2 else Finite 0))"
      unfolding eigenvectors_float_def ev prod.case Let_def v m1(1) m2(1) cfloat_ops(6,8,10)
      using False by simp
    have x: "eigenvectors c M1 M2 M3
             = ((if fTiny c < ?mu1 then (e1 - M3) / ?mu1 else 0),
                (if fTiny c < ?mu2 then (e2 - M3) / ?mu2 else 0),
                (if fTiny c < ?mu1 then M2 / ?mu1 else 0),
                (if fTiny c < ?mu2 then M2 / ?mu2 else 0))"
      unfolding eigenvectors_def e prod.case Let_def using False by simp
    show ?thesis
    proof (cases "fTiny c < ?mu1")
      case c1: True
      show ?thesis
      proof (cases "fTiny c < ?mu2")
        case c2: True
        show ?thesis unfolding u x using c1 c2 m1(2)[OF c1] m2(2)[OF c2] by simp
      next
        case c2: False
        show ?thesis unfolding u x using c1 c2 m1(2)[OF c1] by simp
      qed
    next
      case c1: False
      show ?thesis
      proof (cases "fTiny c < ?mu2")
        case c2: True
        show ?thesis unfolding u x using c1 c2 m2(2)[OF c2] by simp
      next
        case c2: False
        show ?thesis unfolding u x using c1 c2 by simp
      qed
    qed
  qed
  from both show "eigenvectors_float c (Finite M1) (Finite M2) (Finite M3)
         = (case eigenvectors c M1 M2 M3 of
              (V1, V2, V3, V4) \<Rightarrow> (Finite V1, Finite V2, Finite V3, Finite V4))" ..
  from both show "case eigenvectors c M1 M2 M3 of
           (V1, V2, V3, V4) \<Rightarrow> \<bar>V1\<bar> \<le> 1 \<and> \<bar>V2\<bar> \<le> 1 \<and> \<bar>V3\<bar> \<le> 1 \<and> \<bar>V4\<bar> \<le> 1" ..
qed


subsection \<open>The shrinkage and the whole function\<close>

lemma l1_projection_shrinks:
  assumes "l1_projection a b s k = Some r"
    and "0 \<le> a" and "0 \<le> b" and "1 < s \<longrightarrow> 0 \<le> k"
  shows "0 \<le> fst r \<and> fst r \<le> a \<and> 0 \<le> snd r \<and> snd r \<le> b"
proof -
  have "0 \<le> a \<and> 0 \<le> b \<and> (1 < s \<longrightarrow> 0 \<le> k)
        \<longrightarrow> 0 \<le> fst r \<and> fst r \<le> a \<and> 0 \<le> snd r \<and> snd r \<le> b"
  proof (rule l1_projection.raw_induct[OF _ assms(1)], intro impI, elim conjE)
    fix f :: "real \<Rightarrow> real \<Rightarrow> real \<Rightarrow> real \<Rightarrow> (real \<times> real) option"
      and a b s k :: real and r :: "real \<times> real"
    assume ih: "\<And>a b s k y. f a b s k = Some y \<Longrightarrow>
                 0 \<le> a \<and> 0 \<le> b \<and> (1 < s \<longrightarrow> 0 \<le> k)
                 \<longrightarrow> 0 \<le> fst y \<and> fst y \<le> a \<and> 0 \<le> snd y \<and> snd y \<le> b"
      and e: "(if 1 < s
               then let p0 = max (a - k) 0; p1 = max (b - k) 0; sum_n = 0 + \<bar>p0\<bar> + \<bar>p1\<bar>;
                        num = (if p0 \<noteq> 0 then 1 else 0) + (if p1 \<noteq> 0 then 1 else 0)
                    in if 0 < num then f p0 p1 sum_n ((sum_n - 1) / real_of_int num)
                       else Some (p0, p1)
               else Some (a, b)) = Some r"
      and i: "0 \<le> a" "0 \<le> b" "1 < s \<longrightarrow> 0 \<le> k"
    show "0 \<le> fst r \<and> fst r \<le> a \<and> 0 \<le> snd r \<and> snd r \<le> b"
    proof (cases "1 < s")
      case False
      then show ?thesis using e i by auto
    next
      case True
      then have k: "0 \<le> k" using i(3) by simp
      define p0 where "p0 = max (a - k) 0"
      define p1 where "p1 = max (b - k) 0"
      define num where "num = (if p0 \<noteq> 0 then 1 else 0) + (if p1 \<noteq> 0 then 1 else (0::int))"
      define k' where "k' = (0 + \<bar>p0\<bar> + \<bar>p1\<bar> - 1) / real_of_int num"
      have p: "0 \<le> p0" "p0 \<le> a" "0 \<le> p1" "p1 \<le> b"
        using i(1,2) k by (simp_all add: p0_def p1_def)
      from e True have ex: "(if 0 < num then f p0 p1 (0 + \<bar>p0\<bar> + \<bar>p1\<bar>) k' else Some (p0, p1)) = Some r"
        by (simp only: Let_def p0_def[symmetric] p1_def[symmetric] num_def[symmetric]
              k'_def[symmetric] if_True)
      show ?thesis
      proof (cases "0 < num")
        case False
        then show ?thesis using ex p by auto
      next
        case True
        then have r: "f p0 p1 (0 + \<bar>p0\<bar> + \<bar>p1\<bar>) k' = Some r" using ex by simp
        have n: "num = 1 \<or> num = 2" using True by (auto simp: num_def split: if_splits)
        have "1 < 0 + \<bar>p0\<bar> + \<bar>p1\<bar> \<longrightarrow> 0 \<le> k'"
          using n p by (auto simp: k'_def)
        with ih[OF r] p show ?thesis by auto
      qed
    qed
  qed
  then show ?thesis using assms by simp
qed

lemma l1_projection_returns:
  "\<exists>x y. l1_projection a b fl 0 = Some (x, y)"
proof (cases "1 < fl")
  case True
  from l1_projection_total[OF True, of a b] show ?thesis by blast
next
  case False
  then show ?thesis by (simp add: l1_exit)
qed

lemma prox_diag_float_exact:
  assumes "0 \<le> s1" and "s1 \<le> 2 ^ 31" and "0 \<le> s2" and "s2 \<le> 2 ^ 31"
    and "1 / 2 ^ 60 \<le> sigma" and "sigma \<le> 2 ^ 60"
  shows "\<exists>u1 u2. prox_diag c s1 s2 sigma p = Some (u1, u2)
           \<and> prox_diag_float c (Finite s1) (Finite s2) (Finite sigma) p = Some (Finite u1, Finite u2)
           \<and> 0 \<le> u1 \<and> u1 \<le> s1 \<and> 0 \<le> u2 \<and> u2 \<le> s2"
proof -
  let ?d = "1 / sigma"
  have sg: "0 < sigma"
  proof -
    have "(0::real) < 1 / 2 ^ 60" by simp
    then show ?thesis using assms(5) by linarith
  qed
  have d: "0 < ?d" "?d \<le> 2 ^ 60"
  proof -
    show "0 < ?d" using sg by simp
    have "1 / sigma \<le> 1 / (1 / 2 ^ 60)"
      using assms(5) by (intro divide_left_mono) simp_all
    then show "?d \<le> 2 ^ 60" by simp
  qed
  note rb = range_bounds
  have fd: "1 / Finite sigma = Finite ?d"
    unfolding cfloat_ops(9) using sg d rb
    by (intro trans[OF cfloat_ops(4)] round_f_in) (simp, linarith)
  have b31: "(2::real) ^ 31 \<le> 2 ^ 60" by simp
  show ?thesis
  proof (cases "p = 1")
    case True
    have "Finite s1 - Finite ?d = Finite (s1 - ?d)" "Finite s2 - Finite ?d = Finite (s2 - ?d)"
      using assms(1-4) d rb b31 by (intro trans[OF cfloat_ops(2)] round_f_in; linarith)+
    then have "prox_diag_float c (Finite s1) (Finite s2) (Finite sigma) p
               = Some (Finite (max (s1 - ?d) 0), Finite (max (s2 - ?d) 0))"
      unfolding prox_diag_float_def Let_def fd cfloat_ops(8) using True
      by (simp add: MAX_C_Finite)
    moreover have "prox_diag c s1 s2 sigma p = Some (max (s1 - ?d) 0, max (s2 - ?d) 0)"
      unfolding prox_diag_def Let_def using True by simp
    moreover have "max (s1 - ?d) 0 \<le> s1" "max (s2 - ?d) 0 \<le> s2"
      using assms(1,3) d by simp_all
    ultimately show ?thesis by simp
  next
    case p1: False
    show ?thesis
    proof (cases "p = INFNORM c")
      case False
      then show ?thesis using p1 assms(1,3)
        by (simp add: prox_diag_def prox_diag_float_def cfloat_ops(8))
    next
      case True
      let ?a = "sigma * \<bar>s1\<bar>" and ?b = "sigma * \<bar>s2\<bar>"
      have ab: "0 \<le> ?a" "0 \<le> ?b" using sg by simp_all
      have a91: "?a \<le> 2 ^ 60 * 2 ^ 31" "?b \<le> 2 ^ 60 * 2 ^ 31"
      proof -
        have "sigma * s1 \<le> 2 ^ 60 * 2 ^ 31" "sigma * s2 \<le> 2 ^ 60 * 2 ^ 31"
          using assms(1-4,6) sg by (intro mult_mono; simp)+
        then show "?a \<le> 2 ^ 60 * 2 ^ 31" "?b \<le> 2 ^ 60 * 2 ^ 31"
          using assms(1,3) by simp_all
      qed
      have l: "(2::real) ^ 60 * 2 ^ 31 * 2 < float_limit" by (simp add: float_limit_def)
      have pa: "Finite sigma * \<bar>Finite s1\<bar> = Finite ?a" "Finite sigma * \<bar>Finite s2\<bar> = Finite ?b"
        unfolding cfloat_ops(5) using ab a91 l
        by (intro trans[OF cfloat_ops(3)] round_f_in; linarith)+
      from l1_projection_returns obtain x y where
        xy: "l1_projection ?a ?b (fLarge c) 0 = Some (x, y)" by blast
      from l1_projection_shrinks[OF xy ab] have sh: "0 \<le> x" "x \<le> ?a" "0 \<le> y" "y \<le> ?b"
        by simp_all
      have fxy: "l1_projection_float c (Finite ?a) (Finite ?b) (Finite (fLarge c)) (Finite 0)
                 = Some (Finite x, Finite y)"
        using l1_projection_float_exact[OF xy ab, of c] a91 l float_limit_gt by simp
      have dx: "0 \<le> ?d * x" "?d * x \<le> s1" "0 \<le> ?d * y" "?d * y \<le> s2"
      proof -
        show "0 \<le> ?d * x" "0 \<le> ?d * y" using sh d by simp_all
        have "?d * x \<le> ?d * ?a" "?d * y \<le> ?d * ?b"
          using sh d by (intro mult_left_mono; simp)+
        then show "?d * x \<le> s1" "?d * y \<le> s2" using sg assms(1,3) by simp_all
      qed
      have m: "Finite ?d * Finite x = Finite (?d * x)" "Finite ?d * Finite y = Finite (?d * y)"
        using dx assms(2,4) rb b31
        by (intro trans[OF cfloat_ops(3)] round_f_in; linarith)+
      have u: "Finite s1 - Finite (?d * x) = Finite (s1 - ?d * x)"
              "Finite s2 - Finite (?d * y) = Finite (s2 - ?d * y)"
        using dx assms(1-4) rb b31
        by (intro trans[OF cfloat_ops(2)] round_f_in; linarith)+
      have "prox_diag_float c (Finite s1) (Finite s2) (Finite sigma) p
            = Some (Finite (s1 - ?d * x), Finite (s2 - ?d * y))"
        unfolding prox_diag_float_def Let_def fd pa cfloat_ops(8) fxy
        using True p1 by (simp only: if_False if_True option.case prod.case m u simp_thms)
      moreover have "prox_diag c s1 s2 sigma p = Some (s1 - ?d * x, s2 - ?d * y)"
        unfolding prox_diag_def Let_def xy
        using True p1 by (simp only: if_False if_True option.case prod.case simp_thms)
      ultimately show ?thesis using dx by simp
    qed
  qed
qed


lemma assemble_float:
  fixes w1 w2 a b c d :: real
  assumes "\<bar>w1\<bar> \<le> 2 ^ 31" and "\<bar>w2\<bar> \<le> 2 ^ 31"
    and "\<bar>a\<bar> \<le> 1" and "\<bar>b\<bar> \<le> 1" and "\<bar>c\<bar> \<le> 1" and "\<bar>d\<bar> \<le> 1"
  shows "Finite w1 * Finite a * Finite b + Finite w2 * Finite c * Finite d
         = Finite (w1 * a * b + w2 * c * d)"
proof -
  have l: "(2::real) ^ 31 * 2 < float_limit" by (simp add: float_limit_def)
  have p1: "\<bar>w1 * a\<bar> \<le> 2 ^ 31" "\<bar>w2 * c\<bar> \<le> 2 ^ 31"
    using abs_mult_le[OF assms(1,3)] abs_mult_le[OF assms(2,5)] by simp_all
  have p2: "\<bar>w1 * a * b\<bar> \<le> 2 ^ 31" "\<bar>w2 * c * d\<bar> \<le> 2 ^ 31"
    using abs_mult_le[OF p1(1) assms(4)] abs_mult_le[OF p1(2) assms(6)] by simp_all
  have s1: "Finite w1 * Finite a = Finite (w1 * a)" "Finite w2 * Finite c = Finite (w2 * c)"
    using p1 l by (intro trans[OF cfloat_ops(3)] round_f_in; linarith)+
  have s2: "Finite (w1 * a) * Finite b = Finite (w1 * a * b)"
           "Finite (w2 * c) * Finite d = Finite (w2 * c * d)"
    using p2 l by (intro trans[OF cfloat_ops(3)] round_f_in; linarith)+
  have s3: "Finite (w1 * a * b) + Finite (w2 * c * d) = Finite (w1 * a * b + w2 * c * d)"
    using p2 l by (intro trans[OF cfloat_ops(1)] round_f_in) linarith
  show ?thesis unfolding s1 s2 s3 ..
qed

text \<open>
  For inputs of moderate size (entries up to \<open>2^60\<close>, a step between \<open>2^-60\<close> and \<open>2^60\<close>)
  and a constant \<^verbatim>\<open>fTiny\<close> that is not negative, no result inside \<^verbatim>\<open>coefF\<close> leaves the
  range: the function returns, and returns what the stages give in exact arithmetic.
\<close>

lemma coefF_in_range:
  assumes "\<bar>M1\<bar> \<le> 2 ^ 60" and "\<bar>M2\<bar> \<le> 2 ^ 60" and "\<bar>M3\<bar> \<le> 2 ^ 60"
    and "1 / 2 ^ 60 \<le> sigma" and "sigma \<le> 2 ^ 60" and "0 \<le> fTiny c"
  shows "\<exists>t0 t1 t2. coefF_exact c M1 M2 M3 sigma p = Some (t0, t1, t2)
           \<and> coefF c (Finite M1) (Finite M2) (Finite M3) (Finite sigma) p q r
               = Some (Finite t0, Finite t1, Finite t2)"
proof -
  obtain s1 s2 where s: "singular_values M1 M2 M3 = (s1, s2)"
    by (cases "singular_values M1 M2 M3")
  note sv = singular_values_float_exact(1)[OF assms(1-3), of c, unfolded s fst_conv snd_conv]
  note sb = singular_values_float_exact(2-5)[OF assms(1-3), unfolded s fst_conv snd_conv]
  obtain V1 V2 V3 V4 where v: "eigenvectors c M1 M2 M3 = (V1, V2, V3, V4)"
    by (cases "eigenvectors c M1 M2 M3") auto
  note ev = eigenvectors_float_exact(1)[OF assms(1-3,6), unfolded v prod.case]
  from eigenvectors_float_exact(2)[OF assms(1-3,6), unfolded v prod.case]
  have vb: "\<bar>V1\<bar> \<le> 1" "\<bar>V2\<bar> \<le> 1" "\<bar>V3\<bar> \<le> 1" "\<bar>V4\<bar> \<le> 1" by simp_all
  from prox_diag_float_exact[OF sb assms(4,5), of c p] obtain u1 u2 where
    pd: "prox_diag c s1 s2 sigma p = Some (u1, u2)"
    and pf: "prox_diag_float c (Finite s1) (Finite s2) (Finite sigma) p = Some (Finite u1, Finite u2)"
    and ub: "0 \<le> u1" "u1 \<le> s1" "0 \<le> u2" "u2 \<le> s2"
    by blast
  define w1 where "w1 = (if fTiny c < s1 then u1 / s1 else u1)"
  define w2 where "w2 = (if fTiny c < s2 then u2 / s2 else u2)"
  have wq: "0 \<le> u / g \<and> u / g \<le> 1" if "0 \<le> u" "u \<le> g" "fTiny c < g" for u g :: real
    using that assms(6) by simp
  have wb: "\<bar>w1\<bar> \<le> 2 ^ 31" "\<bar>w2\<bar> \<le> 2 ^ 31"
  proof -
    have o: "(1::real) \<le> 2 ^ 31" by simp
    show "\<bar>w1\<bar> \<le> 2 ^ 31"
      using wq[OF ub(1,2)] ub(1,2) sb(2) o by (cases "fTiny c < s1") (simp_all add: w1_def)
    show "\<bar>w2\<bar> \<le> 2 ^ 31"
      using wq[OF ub(3,4)] ub(3,4) sb(4) o by (cases "fTiny c < s2") (simp_all add: w2_def)
  qed
  have fq: "Finite u / Finite g = Finite (u / g)" if "0 \<le> u" "u \<le> g" "fTiny c < g" for u g :: real
  proof -
    have "g \<noteq> 0" using that(3) assms(6) by linarith
    moreover have "\<bar>u / g\<bar> < float_limit" using wq[OF that] float_limit_gt by linarith
    ultimately show ?thesis by (simp add: cfloat_ops(4) round_f_in)
  qed
  have f1: "(if Finite (fTiny c) < Finite s1 then Finite u1 / Finite s1 else Finite u1) = Finite w1"
    using fq[OF ub(1,2)] by (simp add: cfloat_ops(6) w1_def)
  have f2: "(if Finite (fTiny c) < Finite s2 then Finite u2 / Finite s2 else Finite u2) = Finite w2"
    using fq[OF ub(3,4)] by (simp add: cfloat_ops(6) w2_def)
  have "coefF c (Finite M1) (Finite M2) (Finite M3) (Finite sigma) p q r
        = Some (Finite (w1 * V1 * V1 + w2 * V2 * V2), Finite (w1 * V1 * V3 + w2 * V2 * V4),
                Finite (w1 * V3 * V3 + w2 * V4 * V4))"
    unfolding coefF_def sv ev prod.case pf option.case Let_def f1 f2
      assemble_float[OF wb vb(1,1,2,2)] assemble_float[OF wb vb(1,3,2,4)]
      assemble_float[OF wb vb(3,3,4,4)] ..
  moreover have "coefF_exact c M1 M2 M3 sigma p
        = Some (w1 * V1 * V1 + w2 * V2 * V2, w1 * V1 * V3 + w2 * V2 * V4,
                w1 * V3 * V3 + w2 * V4 * V4)"
    unfolding coefF_exact_def s v prod.case pd option.case Let_def w1_def w2_def ..
  ultimately show ?thesis by blast
qed

text \<open>
  So what the exact stages are shown to satisfy holds of the \<^verbatim>\<open>float\<close> values in the
  range: the singular values are ordered, and the water-filling loop returns with a sum
  of at most 1.
\<close>

lemma singular_values_float_ordered:
  assumes "\<bar>M1\<bar> \<le> 2 ^ 60" and "\<bar>M2\<bar> \<le> 2 ^ 60" and "\<bar>M3\<bar> \<le> 2 ^ 60"
  shows "\<exists>sig1 sig2. singular_values_float c (Finite M1) (Finite M2) (Finite M3)
                       = (Finite sig1, Finite sig2) \<and> sig2 \<le> sig1 \<and> 0 \<le> sig2"
proof -
  obtain s1 s2 where s: "singular_values M1 M2 M3 = (s1, s2)"
    by (cases "singular_values M1 M2 M3")
  from singular_values_float_exact(1)[OF assms, of c] singular_values_order[OF s]
  show ?thesis by (simp add: s)
qed

lemma water_filling_float:
  assumes "0 \<le> a" and "0 \<le> b" and "a + b < float_limit" and "1 < fl"
  shows "\<exists>x y. l1_projection_float c (Finite a) (Finite b) (Finite fl) (Finite 0)
                 = Some (Finite x, Finite y) \<and> 0 \<le> x \<and> 0 \<le> y \<and> x + y \<le> 1"
proof -
  from l1_projection_total[OF assms(4), of a b] obtain x y where
    l: "l1_projection a b fl 0 = Some (x, y)" and b: "0 \<le> x" "0 \<le> y" "x + y \<le> 1"
    by blast
  from l1_projection_float_exact[OF l assms(1-3), of c] float_limit_gt
  have "l1_projection_float c (Finite a) (Finite b) (Finite fl) (Finite 0)
        = Some (Finite x, Finite y)" by simp
  then show ?thesis using b by blast
qed

section \<open>Loops, tasks and what they leave alone\<close>

lemma for_loop_append:
  "for_loop (xs @ ys) body s =
     (case for_loop xs body s of None \<Rightarrow> None | Some s' \<Rightarrow> for_loop ys body s')"
  by (induction xs arbitrary: s) (auto split: option.splits)

lemma for_loop_invariant:
  assumes "for_loop xs body s = Some s'" and "I s"
    and "\<And>i t t'. i \<in> set xs \<Longrightarrow> I t \<Longrightarrow> body i t = Some t' \<Longrightarrow> I t'"
  shows "I s'"
  using assms
proof (induction xs arbitrary: s)
  case Nil
  then show ?case by simp
next
  case (Cons x xs)
  from Cons.prems(1) obtain t where t: "body x s = Some t" "for_loop xs body t = Some s'"
    by (auto split: option.splits)
  have "I t" by (rule Cons.prems(3)[of x s t]) (simp_all add: Cons.prems(2) t(1))
  then show ?case
    by (rule Cons.IH[OF t(2)]) (rule Cons.prems(3), simp_all)
qed

lemma for_loop_cong:
  assumes "\<And>i t. i \<in> set xs \<Longrightarrow> f i t = g i t"
  shows "for_loop xs f s = for_loop xs g s"
  using assms by (induction xs arbitrary: s) (auto split: option.splits)

lemmas bind_defs = Option.bind_eq_Some_conv

subsection \<open>The tasks keep the rows of their partition\<close>

lemma tnv_init_thread_geometry:
  "tnv_init_thread env c ctx = Some ctx' \<Longrightarrow> geometry ctx' = geometry ctx"
  by (auto simp: tnv_init_thread_def Let_def geometry_def bind_defs)

lemma tnv_start_copy_geometry:
  "tnv_start_copy m c k j i ctx = Some ctx' \<Longrightarrow> geometry ctx' = geometry ctx"
  by (auto simp: tnv_start_copy_def Let_def geometry_def bind_defs)

lemma tnv_start_loops_geometry:
  assumes "for_loop ks (\<lambda>k. for_loop js (\<lambda>j. for_loop xs (\<lambda>i. tnv_start_copy m c k j i))) ctx
             = Some ctx'"
  shows "geometry ctx' = geometry ctx"
  by (rule for_loop_invariant[OF assms, where I = "\<lambda>t. geometry t = geometry ctx"], simp)
     (erule for_loop_invariant, assumption, erule for_loop_invariant, assumption,
      simp add: tnv_start_copy_geometry)

lemma tnv_start_thread_geometry:
  "tnv_start_thread m c ctx = Some ctx' \<Longrightarrow> geometry ctx' = geometry ctx"
  by (auto simp: tnv_start_thread_def Let_def bind_defs dest!: tnv_start_loops_geometry)
     (simp add: geometry_def)

lemma tnv_restore_thread_geometry:
  "tnv_restore_thread c ctx = Some ctx' \<Longrightarrow> geometry ctx' = geometry ctx"
  by (auto simp: tnv_restore_thread_def Let_def geometry_def bind_defs)

lemma step_first_row_geometry:
  "step_first_row c i k ctx = Some ctx' \<Longrightarrow> geometry ctx' = geometry ctx"
  by (auto simp: step_first_row_def Let_def geometry_def bind_defs)

lemma step_gradient_geometry:
  "step_gradient c j i k s = Some s' \<Longrightarrow> geometry (fst s') = geometry (fst s)"
  by (cases s) (auto simp: step_gradient_def Let_def geometry_def bind_defs)

lemma step_dual_geometry:
  "step_dual c j i t a k ctx = Some ctx' \<Longrightarrow> geometry ctx' = geometry ctx"
  by (cases t) (auto simp: step_dual_def Let_def geometry_def bind_defs)

lemma step_pixel_geometry:
  assumes "step_pixel h c j i s = Some s'"
  shows "geometry (fst s') = geometry (fst s)"
proof -
  obtain ctx a where s: "s = (ctx, a)" by (cases s)
  from assms obtain g t where
    g: "for_loop [0..dimZ_C c - 1] (step_gradient c j i) (ctx, a, 0, 0, 0) = Some g"
    and d: "for_loop [0..dimZ_C c - 1] (step_dual c j i t (fst (snd g))) (fst g) = Some (fst s')"
    by (auto simp: s step_pixel_def Let_def bind_defs)
  have "geometry (fst g) = geometry ctx"
    by (rule for_loop_invariant[OF g, where I = "\<lambda>x. geometry (fst x) = geometry ctx"])
       (simp_all add: step_gradient_geometry)
  moreover have "geometry (fst s') = geometry (fst g)"
    by (rule for_loop_invariant[OF d, where I = "\<lambda>x. geometry x = geometry (fst g)"])
       (simp_all add: step_dual_geometry)
  ultimately show ?thesis by (simp add: s)
qed

lemma tnv_step_thread_geometry:
  assumes "tnv_step_thread h c ctx = Some ctx'"
  shows "geometry ctx' = geometry ctx"
proof -
  define ctx0 where "ctx0 = ctx\<lparr>resprimal_C := 0, resdual_C := 0, product_C := 0, unorm_C := 0,
                                 qnorm_C := 0\<rparr>"
  from assms obtain ctx1 a a2 where
    f: "for_loop [0..dimX_C c - 1] (\<lambda>i. for_loop [0..dimZ_C c - 1] (\<lambda>k. step_first_row c i k))
              ctx0 = Some ctx1"
    and l: "for_loop [0..stepY_C ctx - 1] (\<lambda>j. for_loop [0..dimX_C c - 1] (\<lambda>i. step_pixel h c j i))
              (ctx1, a) = Some (ctx', a2)"
    by (auto simp: tnv_step_thread_def Let_def bind_defs ctx0_def split: if_splits)
  have "geometry ctx1 = geometry ctx0"
    by (rule for_loop_invariant[OF f, where I = "\<lambda>x. geometry x = geometry ctx0"], simp)
       (erule for_loop_invariant, assumption, simp add: step_first_row_geometry)
  moreover have "geometry (fst (ctx', a2)) = geometry ctx1"
    by (rule for_loop_invariant[OF l, where I = "\<lambda>x. geometry (fst x) = geometry ctx1"], simp)
       (erule for_loop_invariant, assumption, simp add: step_pixel_geometry)
  ultimately show ?thesis by (simp add: ctx0_def geometry_def)
qed

subsection \<open>The scheduler\<close>

lemma on_thread_keeps:
  assumes "on_thread f p d = Some p'"
    and "\<And>c t t'. f c t = Some t' \<Longrightarrow> geometry t' = geometry t"
  shows "layout p' = layout p \<and> call_parameters p' = call_parameters p
         \<and> mem p' = mem p \<and> trace p' = trace p"
proof -
  from assms(1) obtain t where
    d: "0 \<le> d" "d < int (length (thr_ctx_C (tnv_ctx p)))"
    and t: "f (tnv_ctx p) (thr_ctx_C (tnv_ctx p) ! nat d) = Some t"
    and p': "p' = p\<lparr>tnv_ctx := (tnv_ctx p)\<lparr>thr_ctx_C := (thr_ctx_C (tnv_ctx p))[nat d := t]\<rparr>\<rparr>"
    by (auto simp: on_thread_def Let_def split: if_splits option.splits)
  have "geometry t = geometry (thr_ctx_C (tnv_ctx p) ! nat d)"
    using assms(2)[OF t] .
  then have "map geometry ((thr_ctx_C (tnv_ctx p))[nat d := t]) = map geometry (thr_ctx_C (tnv_ctx p))"
    using d by (simp add: map_update list_update_same_conv)
  then show ?thesis by (simp add: p' layout_def call_parameters_def)
qed

lemma schedule_keeps:
  assumes "schedule name f p = Some p'"
    and "\<And>q d q'. f q d = Some q' \<Longrightarrow>
           layout q' = layout q \<and> call_parameters q' = call_parameters q
           \<and> mem q' = mem q \<and> trace q' = trace q"
  shows "layout p' = layout p \<and> call_parameters p' = call_parameters p
         \<and> mem p' = mem p \<and> trace p' = trace p @ [Scheduled name]"
proof -
  from assms(1) obtain n where
    l: "for_loop [0..n - 1] (\<lambda>device_id q. f q device_id) (p\<lparr>trace := trace p @ [Scheduled name]\<rparr>)
          = Some p'"
    by (auto simp: schedule_def split: option.splits)
  show ?thesis
    by (rule for_loop_invariant[OF l, where I = "\<lambda>q. layout q = layout p
          \<and> call_parameters q = call_parameters p \<and> mem q = mem p
          \<and> trace q = trace p @ [Scheduled name]"])
       (auto simp: layout_def call_parameters_def dest!: assms(2))
qed

lemma tnv_init_keeps:
  "tnv_init env q d = Some q' \<Longrightarrow>
     layout q' = layout q \<and> call_parameters q' = call_parameters q
     \<and> mem q' = mem q \<and> trace q' = trace q"
  unfolding tnv_init_def by (erule on_thread_keeps) (rule tnv_init_thread_geometry)

lemma tnv_start_keeps:
  "tnv_start q d = Some q' \<Longrightarrow>
     layout q' = layout q \<and> call_parameters q' = call_parameters q
     \<and> mem q' = mem q \<and> trace q' = trace q"
  unfolding tnv_start_def by (erule on_thread_keeps) (rule tnv_start_thread_geometry)

lemma tnv_restore_keeps:
  "tnv_restore q d = Some q' \<Longrightarrow>
     layout q' = layout q \<and> call_parameters q' = call_parameters q
     \<and> mem q' = mem q \<and> trace q' = trace q"
  unfolding tnv_restore_def by (erule on_thread_keeps) (rule tnv_restore_thread_geometry)

lemma tnv_step_keeps:
  "tnv_step h q d = Some q' \<Longrightarrow>
     layout q' = layout q \<and> call_parameters q' = call_parameters q
     \<and> mem q' = mem q \<and> trace q' = trace q"
  unfolding tnv_step_def by (erule on_thread_keeps) (rule tnv_step_thread_geometry)

subsection \<open>The passes of the main loop\<close>

lemma map_geometry_update:
  assumes "map geometry ys = map geometry xs" and "n < length xs"
    and "geometry x = geometry (xs ! n)"
  shows "map geometry (ys[n := x]) = map geometry xs"
proof -
  have "map geometry (ys[n := x]) = (map geometry xs)[n := map geometry xs ! n]"
    using assms by (simp add: map_update)
  then show ?thesis by simp
qed

lemma border_cell_geometry:
  assumes "border_cell dx pz divtau j i k s = Some s'"
  shows "map geometry (fst s') = map geometry (fst s)"
proof -
  obtain ths r where s: "s = (ths, r)" by (cases s)
  from assms obtain b b0 where j: "1 \<le> j" "j < int (length ths)"
    and s': "fst s' = ths[nat (j - 1) := (ths ! nat (j - 1))\<lparr>div_C := b0\<rparr>,
                         nat j := (ths ! nat j)\<lparr>div_C := b\<rparr>]"
    by (auto simp: s border_cell_def Let_def bind_defs split: if_splits)
  have "map geometry (ths[nat (j - 1) := (ths ! nat (j - 1))\<lparr>div_C := b0\<rparr>]) = map geometry ths"
    using j by (intro map_geometry_update) (simp_all add: geometry_def)
  then show ?thesis
    unfolding s' s fst_conv using j by (intro map_geometry_update) (simp_all add: geometry_def)
qed

lemma border_regions_geometry:
  assumes "border_regions dx dz divtau c r = Some s'"
  shows "map geometry (fst s') = map geometry (thr_ctx_C c)"
  by (rule for_loop_invariant[OF assms[unfolded border_regions_def],
        where I = "\<lambda>x. map geometry (fst x) = map geometry (thr_ctx_C c)"], simp)
     (erule for_loop_invariant, assumption, erule for_loop_invariant, assumption,
      simp add: border_cell_geometry)

lemma pdhg_statistics_keeps:
  assumes "pdhg_statistics h dx dz tau sigma p = Some (p', stats)"
  shows "layout p' = layout p \<and> call_parameters p' = call_parameters p
         \<and> mem p' = mem p \<and> trace p' = trace p @ [Scheduled Tnv_step]"
proof -
  define p1 where "p1 = p\<lparr>tnv_ctx := (tnv_ctx p)\<lparr>sigma_C := sigma, tau_C := tau, theta_C := 1\<rparr>\<rparr>"
  from assms obtain p2 b where
    s: "schedule Tnv_step (tnv_step h) p1 = Some p2"
    and b: "border_regions dx dz (1 / tau) (tnv_ctx p2) 0 = Some b"
    and p': "p' = p2\<lparr>tnv_ctx := (tnv_ctx p2)\<lparr>thr_ctx_C := fst b\<rparr>\<rparr>"
    by (auto simp: pdhg_statistics_def Let_def bind_defs p1_def)
  have "layout p2 = layout p1 \<and> call_parameters p2 = call_parameters p1
         \<and> mem p2 = mem p1 \<and> trace p2 = trace p1 @ [Scheduled Tnv_step]"
    by (rule schedule_keeps[OF s]) (rule tnv_step_keeps)
  moreover have "layout p1 = layout p \<and> call_parameters p1 = call_parameters p
         \<and> mem p1 = mem p \<and> trace p1 = trace p"
    by (simp add: p1_def layout_def call_parameters_def)
  moreover have "layout p' = layout p2 \<and> call_parameters p' = call_parameters p2
         \<and> mem p' = mem p2 \<and> trace p' = trace p2"
    using border_regions_geometry[OF b] by (simp add: p' layout_def call_parameters_def)
  ultimately show ?thesis by simp
qed

lemma backtracking_keeps:
  assumes "backtracking action p = Some p'"
  shows "layout p' = layout p \<and> call_parameters p' = call_parameters p
         \<and> mem p' = mem p \<and> trace p' = trace p @ backtrack_events action"
proof (cases action)
  case Rollback
  then have "schedule Tnv_restore tnv_restore p = Some p'"
    using assms by (simp add: backtracking_def)
  from schedule_keeps[OF this tnv_restore_keeps] show ?thesis
    by (simp add: Rollback backtrack_events_def)
next
  case Warn
  then show ?thesis using assms
    by (auto simp: backtracking_def backtrack_events_def layout_def call_parameters_def)
next
  case Accept
  then show ?thesis using assms by (auto simp: backtracking_def backtrack_events_def)
qed

text \<open>A pass of the loop, taken apart.\<close>

lemma pdhg_iteration_parts:
  assumes "pdhg_iteration h dx dy dz (p, (tau, sigma, alpha, started), r) = Some (p', v', r')"
  shows "\<exists>p3 resprimal resdual prod un qn.
    pdhg_statistics h dx dz tau sigma p = Some (p3, resprimal, resdual, prod, un, qn)
    \<and> v' = fst (step_size_controller (tau, sigma, alpha, started)
                 (balance tau sigma prod un qn) resprimal resdual)
    \<and> backtracking (snd (step_size_controller (tau, sigma, alpha, started)
                 (balance tau sigma prod un qn) resprimal resdual)) p3 = Some p'
    \<and> r' = (resprimal + resdual) / real_of_int (dx * dy * dz)"
  using assms
  by (auto simp: pdhg_iteration_def Let_def bind_defs case_prod_beta)

lemma step_size_controller_started:
  "started \<noteq> 0 \<Longrightarrow>
     snd (snd (snd (fst (step_size_controller (tau, sigma, alpha, started) b rp rdl)))) \<noteq> 0
     \<and> snd (step_size_controller (tau, sigma, alpha, started) b rp rdl) \<noteq> Rollback"
  by (simp add: step_size_controller_def Let_def)

lemma pdhg_iteration_keeps:
  assumes "pdhg_iteration h dx dy dz (p, (tau, sigma, alpha, started), r) = Some (p', v', r')"
  shows "layout p' = layout p \<and> call_parameters p' = call_parameters p \<and> mem p' = mem p
         \<and> (\<exists>action. trace p' = trace p @ Scheduled Tnv_step # backtrack_events action
               \<and> (started \<noteq> 0 \<longrightarrow> action \<noteq> Rollback))
         \<and> (started \<noteq> 0 \<longrightarrow> snd (snd (snd v')) \<noteq> 0)"
proof -
  from assms obtain p3 resprimal resdual prod un qn where
    s: "pdhg_statistics h dx dz tau sigma p = Some (p3, resprimal, resdual, prod, un, qn)"
    and v: "v' = fst (step_size_controller (tau, sigma, alpha, started)
                 (balance tau sigma prod un qn) resprimal resdual)"
    and b: "backtracking (snd (step_size_controller (tau, sigma, alpha, started)
                 (balance tau sigma prod un qn) resprimal resdual)) p3 = Some p'"
    using pdhg_iteration_parts[OF assms] by blast
  from pdhg_statistics_keeps[OF s] backtracking_keeps[OF b]
    step_size_controller_started[of started tau sigma alpha "balance tau sigma prod un qn"
      resprimal resdual]
  show ?thesis by (auto simp: v)
qed

lemma backtrack_events_no_restore:
  "action \<noteq> Rollback \<Longrightarrow> Scheduled Tnv_restore \<notin> set (backtrack_events action)"
  by (cases action) (simp_all add: backtrack_events_def)

lemma pdhg_loop_keeps:
  assumes "pdhg_loop h tol dx dy dz n iter (p, v, r) = Some (iter', p', v', r')"
  shows "layout p' = layout p \<and> call_parameters p' = call_parameters p \<and> mem p' = mem p
         \<and> (\<exists>ext. trace p' = trace p @ ext
               \<and> (snd (snd (snd v)) \<noteq> 0 \<longrightarrow> Scheduled Tnv_restore \<notin> set ext))
         \<and> (snd (snd (snd v)) \<noteq> 0 \<longrightarrow> snd (snd (snd v')) \<noteq> 0)"
  using assms
proof (induction n arbitrary: iter p v r)
  case 0
  then show ?case by simp
next
  case (Suc n)
  obtain tau sigma alpha started where v: "v = (tau, sigma, alpha, started)"
    by (cases v) auto
  from Suc.prems obtain p1 v1 r1 where
    i: "pdhg_iteration h dx dy dz (p, (tau, sigma, alpha, started), r) = Some (p1, v1, r1)"
    and rest: "((iter', p', v', r') = (iter, p1, v1, r1))
               \<or> pdhg_loop h tol dx dy dz n (iter + 1) (p1, v1, r1) = Some (iter', p', v', r')"
    by (auto simp: v split: option.splits if_splits)
  from pdhg_iteration_keeps[OF i] obtain action where
    k: "layout p1 = layout p" "call_parameters p1 = call_parameters p" "mem p1 = mem p"
       "trace p1 = trace p @ Scheduled Tnv_step # backtrack_events action"
       "started \<noteq> 0 \<longrightarrow> action \<noteq> Rollback"
       "started \<noteq> 0 \<longrightarrow> snd (snd (snd v1)) \<noteq> 0"
    by auto
  from rest show ?case
  proof
    assume "(iter', p', v', r') = (iter, p1, v1, r1)"
    then show ?thesis using k by (auto simp: v backtrack_events_no_restore)
  next
    assume "pdhg_loop h tol dx dy dz n (iter + 1) (p1, v1, r1) = Some (iter', p', v', r')"
    from Suc.IH[OF this] obtain ext where
      "layout p' = layout p1" "call_parameters p' = call_parameters p1" "mem p' = mem p1"
      "trace p' = trace p1 @ ext"
      "snd (snd (snd v1)) \<noteq> 0 \<longrightarrow> Scheduled Tnv_restore \<notin> set ext"
      "snd (snd (snd v1)) \<noteq> 0 \<longrightarrow> snd (snd (snd v')) \<noteq> 0"
      by auto
    then show ?thesis using k by (auto simp: v backtrack_events_no_restore)
  qed
qed

section \<open>Initialisation\<close>

lemma partition_count_bounds:
  assumes "0 < partition_count cpus dimY"
  shows "partition_count cpus dimY \<le> cpus" and "partition_count cpus dimY \<le> dimY"
    and "1 \<le> dimY"
proof -
  have h: "dimY sdiv 2 \<le> dimY" if "0 < dimY sdiv 2"
    using that by (cases "0 \<le> dimY") (auto simp: signed_divide_int_def sgn_if split: if_splits)
  have p: "0 < dimY" if "0 < dimY sdiv 2"
    using that by (cases "0 \<le> dimY") (auto simp: signed_divide_int_def sgn_if split: if_splits)
  show "partition_count cpus dimY \<le> cpus"
    using assms h by (auto simp: partition_count_def Let_def split: if_splits)
  show "partition_count cpus dimY \<le> dimY"
    using assms h by (auto simp: partition_count_def Let_def split: if_splits)
  show "1 \<le> dimY"
    using assms p by (auto simp: partition_count_def Let_def split: if_splits)
qed

lemma upto_snoc: "0 \<le> n \<Longrightarrow> [0..n] = [0..n - 1] @ [n]"
  by (simp add: upto_rec2)

text \<open>
  The loop of lines 468--477 always returns: after \<open>n\<close> passes the partitions below
  \<open>n\<close> have their rows, one after the other, and \<^verbatim>\<open>off\<close> is the first row not
  yet given away.
\<close>

lemma init_partition_loop:
  assumes "0 \<le> step" and "0 \<le> extra" and "n \<le> length ths0"
  shows "\<exists>ths. for_loop [0..int n - 1] (init_partition threads step extra) (ths0, 0)
                = Some (ths, int n * step + min (int n) extra)
           \<and> length ths = length ths0
           \<and> (\<forall>i<n. offY_C (ths ! i) = int i * step + min (int i) extra
                    \<and> stepY_C (ths ! i) = step + (if int i < extra then 1 else 0)
                    \<and> copY_C (ths ! i) = stepY_C (ths ! i) + (if int i = threads - 1 then 0 else 1))"
  using assms(3)
proof (induction n)
  case 0
  then show ?case using assms(2) by simp
next
  case (Suc n)
  then obtain ths where
    l: "for_loop [0..int n - 1] (init_partition threads step extra) (ths0, 0)
          = Some (ths, int n * step + min (int n) extra)"
    and len: "length ths = length ths0"
    and old: "\<forall>i<n. offY_C (ths ! i) = int i * step + min (int i) extra
                    \<and> stepY_C (ths ! i) = step + (if int i < extra then 1 else 0)
                    \<and> copY_C (ths ! i) = stepY_C (ths ! i) + (if int i = threads - 1 then 0 else 1)"
    by auto
  define size where "size = step + (if int n < extra then 1 else 0)"
  define ctx where "ctx = (if int n = threads - 1
      then (ths ! n)\<lparr>offY_C := int n * step + min (int n) extra, stepY_C := size, copY_C := size\<rparr>
      else (ths ! n)\<lparr>offY_C := int n * step + min (int n) extra, stepY_C := size,
                      copY_C := size + 1\<rparr>)"
  have n: "n < length ths" using Suc.prems len by simp
  have one: "init_partition threads step extra (int n) (ths, int n * step + min (int n) extra)
             = Some (ths[n := ctx], int n * step + min (int n) extra + size)"
    using n by (simp add: init_partition_def Let_def ctx_def size_def)
  have off: "int n * step + min (int n) extra + size = int (Suc n) * step + min (int (Suc n)) extra"
    by (auto simp: size_def min_def algebra_simps)
  have "[0..int (Suc n) - 1] = [0..int n - 1] @ [int n]"
    using upto_snoc[of "int n"] by simp
  then have "for_loop [0..int (Suc n) - 1] (init_partition threads step extra) (ths0, 0)
             = Some (ths[n := ctx], int (Suc n) * step + min (int (Suc n)) extra)"
    using l one off by (simp add: for_loop_append)
  moreover have "length (ths[n := ctx]) = length ths0" using len by simp
  moreover have "\<forall>i<Suc n. offY_C (ths[n := ctx] ! i) = int i * step + min (int i) extra
                    \<and> stepY_C (ths[n := ctx] ! i) = step + (if int i < extra then 1 else 0)
                    \<and> copY_C (ths[n := ctx] ! i)
                        = stepY_C (ths[n := ctx] ! i) + (if int i = threads - 1 then 0 else 1)"
  proof (intro allI impI)
    fix i assume "i < Suc n"
    then consider "i < n" | "i = n" by linarith
    then show "offY_C (ths[n := ctx] ! i) = int i * step + min (int i) extra
                    \<and> stepY_C (ths[n := ctx] ! i) = step + (if int i < extra then 1 else 0)
                    \<and> copY_C (ths[n := ctx] ! i)
                        = stepY_C (ths[n := ctx] ! i) + (if int i = threads - 1 then 0 else 1)"
    proof cases
      case 1
      then show ?thesis using old by simp
    next
      case 2
      then show ?thesis using n by (simp add: ctx_def size_def)
    qed
  qed
  ultimately show ?case by blast
qed

lemma TNV_CPU_init_again:
  "sched p \<noteq> None \<Longrightarrow> TNV_CPU_init env InputT uT dx dy dz p = Some p"
  by (simp add: TNV_CPU_init_def)

lemma rows_within_partition:
  assumes "0 \<le> step" and "0 \<le> extra" and "int i < threads"
    and "dy = step * threads + extra"
  shows "rows_within dy (int i * step + min (int i) extra, step + (if int i < extra then 1 else 0), cop)"
proof -
  have "int i * step + min (int i) extra + (step + (if int i < extra then 1 else 0))
        = (int i + 1) * step + min (int i + 1) extra"
    by (auto simp: min_def algebra_simps)
  moreover have "(int i + 1) * step \<le> threads * step"
    using assms(1,3) by (intro mult_right_mono) simp_all
  moreover have "min (int i + 1) extra \<le> extra" by simp
  moreover have "0 \<le> int i * step + min (int i) extra" using assms(1,2) by simp
  ultimately show ?thesis using assms(4) by (simp add: rows_within_def algebra_simps)
qed

lemma TNV_CPU_init_fresh:
  assumes "sched p = None" and "TNV_CPU_init env InputT uT dx dy dz p = Some p'"
  shows "sched p' = Some (partition_count (cpu_count env) dy)
         \<and> threads_C (tnv_ctx p') = partition_count (cpu_count env) dy
         \<and> 0 < partition_count (cpu_count env) dy
         \<and> padZ_C (tnv_ctx p') = dz
         \<and> set_up_for p' dx dy dz
         \<and> mem p' = mem p \<and> call_parameters p' = call_parameters p
         \<and> trace p' = trace p @ [Scheduled Tnv_init]"
proof -
  define T where "T = partition_count (cpu_count env) dy"
  define step where "step = dy sdiv T"
  define extra where "extra = dy smod T"
  define c where "c = (tnv_ctx p)\<lparr>dimX_C := dx, dimY_C := dy, dimZ_C := dz, padZ_C := dz\<rparr>"
  from assms have T: "0 < T"
    by (auto simp: TNV_CPU_init_def Let_def T_def split: if_splits)
  then have dy: "1 \<le> dy" using partition_count_bounds(3)[of "cpu_count env" dy] by (simp add: T_def)
  have step: "0 \<le> step" and extra: "0 \<le> extra"
    using T dy by (simp_all add: step_def extra_def signed_divide_int_def signed_modulo_int_def
        sgn_if pos_imp_zdiv_nonneg_iff)
  have sum: "dy = step * T + extra"
    using sdiv_mult_smod_eq[of dy T] by (simp add: step_def extra_def)
  from init_partition_loop[OF step extra, of "nat T" "replicate (nat T) calloc_thread" T]
  obtain ths where
    l: "for_loop [0..T - 1] (init_partition T step extra) (replicate (nat T) calloc_thread, 0)
          = Some (ths, T * step + min T extra)"
    and len: "length ths = nat T"
    and rows: "\<forall>i<nat T. offY_C (ths ! i) = int i * step + min (int i) extra
                    \<and> stepY_C (ths ! i) = step + (if int i < extra then 1 else 0)
                    \<and> copY_C (ths ! i) = stepY_C (ths ! i) + (if int i = T - 1 then 0 else 1)"
    using T by auto
  define q where "q = p\<lparr>sched := Some T, tnv_ctx := c\<lparr>threads_C := T, thr_ctx_C := ths\<rparr>\<rparr>"
  have s: "schedule Tnv_init (tnv_init env) q = Some p'"
    using assms T l
    by (simp add: TNV_CPU_init_def Let_def T_def[symmetric] step_def[symmetric]
        extra_def[symmetric] c_def[symmetric] q_def)
  have k: "layout p' = layout q \<and> call_parameters p' = call_parameters q
         \<and> mem p' = mem q \<and> trace p' = trace q @ [Scheduled Tnv_init]"
    by (rule schedule_keeps[OF s]) (rule tnv_init_keeps)
  have "list_all (rows_within dy) (map geometry ths)"
    unfolding list_all_length
  proof (intro allI impI)
    fix i assume "i < length (map geometry ths)"
    then have i: "i < nat T" using len by simp
    then have "int i < T" by simp
    from rows_within_partition[OF step extra this sum, of "copY_C (ths ! i)"] rows i
    show "rows_within dy (map geometry ths ! i)"
      using len by (simp add: geometry_def)
  qed
  then have "set_up_for q dx dy dz"
    by (simp add: set_up_for_def q_def c_def)
  then have "set_up_for p' dx dy dz"
    using k by (simp add: set_up_for_def layout_def)
  moreover have "sched p' = Some T" "threads_C (tnv_ctx p') = T" "padZ_C (tnv_ctx p') = dz"
    using k by (simp_all add: layout_def q_def c_def)
  moreover have "mem p' = mem p" "call_parameters p' = call_parameters p"
    "trace p' = trace p @ [Scheduled Tnv_init]"
    using k by (simp_all add: q_def c_def call_parameters_def)
  ultimately show ?thesis using T by (simp add: T_def)
qed

text \<open>
  C2, as the code has it. When \<^verbatim>\<open>TNV_CPU_init\<close> sets the process up (no scheduler yet)
  for \<open>dimY \<ge> 2\<close>, the number of partitions \<open>P\<close> it chooses is at most the number of
  processors and at most \<open>dimY\<close>, so that every partition has a row; \<open>P \<le> dimY / 2\<close>
  holds exactly when the number of processors is above \<open>dimY\<close> or at most \<open>dimY / 2\<close>.
\<close>

theorem C2_partition_count:
  assumes "2 \<le> dimY" and "sched p = None"
    and "TNV_CPU_init env InputT uT dimX dimY dimZ p = Some p'"
  shows "threads_C (tnv_ctx p') = partition_count (cpu_count env) dimY
         \<and> 1 \<le> threads_C (tnv_ctx p')
         \<and> threads_C (tnv_ctx p') \<le> cpu_count env
         \<and> threads_C (tnv_ctx p') \<le> dimY
         \<and> (threads_C (tnv_ctx p') \<le> dimY sdiv 2
              \<longleftrightarrow> dimY < cpu_count env \<or> cpu_count env \<le> dimY sdiv 2)"
proof -
  from TNV_CPU_init_fresh[OF assms(2,3)]
  have t: "threads_C (tnv_ctx p') = partition_count (cpu_count env) dimY"
    and pos: "0 < partition_count (cpu_count env) dimY"
    by simp_all
  have "(partition_count (cpu_count env) dimY \<le> dimY sdiv 2)
          = (dimY < cpu_count env \<or> cpu_count env \<le> dimY sdiv 2)"
    by (auto simp: partition_count_def Let_def)
  then show ?thesis
    using t pos partition_count_bounds(1,2)[OF pos] by simp
qed

text \<open>
  The claim as the specification words it fails with two processors and two rows: the
  guard of line 461 lets the processor count through, and two partitions are more than
  \<open>dimY / 2 = 1\<close>.
\<close>

theorem C2_counterexample:
  "map_option (\<lambda>p. threads_C (tnv_ctx p)) (TNV_CPU_init two_cpus 0 10 1 2 1 fresh_process) = Some 2
   \<and> (2::int) \<le> 2 \<and> \<not> (2::int) \<le> 2 sdiv 2"
  by (simp add: init_defs Let_def c_arith buf_defs sched_defs sample_defs)

theorem C2_partition_count_witness:
  "(2::int) \<le> 2 \<and> sched fresh_process = None
   \<and> map_option (\<lambda>p. threads_C (tnv_ctx p)) (TNV_CPU_init one_cpu 0 10 1 2 1 fresh_process) = Some 1
   \<and> (1::int) \<le> cpu_count one_cpu \<and> (1::int) \<le> 2 \<and> (1::int) \<le> 2 sdiv 2"
proof -
  have "\<exists>p'. TNV_CPU_init one_cpu 0 10 1 2 1 fresh_process = Some p'"
    by (simp add: init_defs Let_def c_arith buf_defs sched_defs sample_defs)
  then obtain p' where e: "TNV_CPU_init one_cpu 0 10 1 2 1 fresh_process = Some p'"
    by blast
  have s: "sched fresh_process = None" by (simp add: fresh_process_def)
  have "partition_count (cpu_count one_cpu) 2 = 1"
    by (simp add: partition_count_def one_cpu_def)
  with C2_partition_count[OF _ s e] have "threads_C (tnv_ctx p') = 1"
    by simp
  then show ?thesis using s e by (simp add: one_cpu_def c_arith)
qed

section \<open>What a solve writes\<close>

subsection \<open>The write-back stays inside the estimate volume\<close>

lemma finish_index_bound:
  fixes i j k :: int
  assumes "0 \<le> k" "k \<le> dz - 1" "0 \<le> j" "j \<le> step - 1" "0 \<le> i" "i \<le> dx - 1"
    and "0 \<le> off" "off + step \<le> dy"
  shows "0 \<le> k * dx * dy + (j + off) * dx + i"
    and "k * dx * dy + (j + off) * dx + i < dx * dy * dz"
proof -
  have dx: "0 \<le> dx" and dy: "0 \<le> dy" using assms by linarith+
  have a: "(j + off) * dx \<le> (dy - 1) * dx"
    using assms dx by (intro mult_right_mono) linarith+
  have b: "k * (dx * dy) \<le> (dz - 1) * (dx * dy)"
    using assms dx dy by (intro mult_right_mono) simp_all
  have "0 \<le> k * (dx * dy)" "0 \<le> (j + off) * dx"
    using assms dx dy by simp_all
  then show "0 \<le> k * dx * dy + (j + off) * dx + i"
    using assms(5) by (simp add: mult.assoc)
  have "k * dx * dy + (j + off) * dx + i \<le> (dz - 1) * (dx * dy) + (dy - 1) * dx + (dx - 1)"
    using a b assms(6) by (simp add: mult.assoc)
  also have "\<dots> = dx * dy * dz - 1" by (simp add: algebra_simps)
  finally show "k * dx * dy + (j + off) * dx + i < dx * dy * dz" by simp
qed

lemma tnv_finish_keeps:
  "tnv_finish p d = Some p' \<Longrightarrow>
     tnv_ctx p' = tnv_ctx p \<and> sched p' = sched p \<and> trace p' = trace p"
  by (auto simp: tnv_finish_def Let_def bind_defs split: if_splits)

lemma tnv_finish_outside:
  assumes "tnv_finish p d = Some p'" and "set_up_for p dx dy dz"
    and "a < uT_C (tnv_ctx p) \<or> uT_C (tnv_ctx p) + dx * dy * dz \<le> a"
  shows "mem p' a = mem p a"
proof -
  define c where "c = tnv_ctx p"
  define ctx where "ctx = thr_ctx_C c ! nat d"
  from assms(1) obtain m where d: "0 \<le> d" "d < int (length (thr_ctx_C c))"
    and l: "for_loop [0..dimZ_C c - 1] (\<lambda>k.
              for_loop [0..stepY_C ctx - 1] (\<lambda>j.
                for_loop [0..dimX_C c - 1] (\<lambda>i. tnv_finish_copy c ctx k j i))) (mem p) = Some m"
    and p': "p' = p\<lparr>mem := m\<rparr>"
    by (auto simp: tnv_finish_def Let_def bind_defs c_def ctx_def split: if_splits)
  have dims: "dimX_C c = dx" "dimY_C c = dy" "dimZ_C c = dz"
    using assms(2) by (simp_all add: set_up_for_def c_def)
  have "rows_within dy (map geometry (thr_ctx_C c) ! nat d)"
    using assms(2) d by (simp add: set_up_for_def c_def list_all_length)
  then have rows: "0 \<le> offY_C ctx" "offY_C ctx + stepY_C ctx \<le> dy"
    using d by (simp_all add: rows_within_def geometry_def ctx_def)
  have one: "m2 a = m1 a"
    if "tnv_finish_copy c ctx k j i m1 = Some m2"
      and "k \<in> set [0..dimZ_C c - 1]" "j \<in> set [0..stepY_C ctx - 1]" "i \<in> set [0..dimX_C c - 1]"
    for k j i m1 m2
  proof -
    have b: "0 \<le> k * dx * dy + (j + offY_C ctx) * dx + i"
      "k * dx * dy + (j + offY_C ctx) * dx + i < dx * dy * dz"
      using that(2-4) rows dims by (simp_all add: finish_index_bound[where step = "stepY_C ctx"])
    from that(1) obtain v where
      "m2 = m1(uT_C c + (k * dx * dy + (j + offY_C ctx) * dx + i) := v)"
      by (auto simp: tnv_finish_copy_def Let_def bind_defs dims)
    then show ?thesis using b assms(3) by (auto simp: c_def)
  qed
  have "m a = mem p a"
    by (rule for_loop_invariant[OF l, where I = "\<lambda>x. x a = mem p a"], simp)
       (erule for_loop_invariant, assumption, erule for_loop_invariant, assumption,
        simp add: one)
  then show ?thesis by (simp add: p')
qed

lemma schedule_finish:
  assumes "schedule Tnv_finish tnv_finish p = Some p'" and "set_up_for p dx dy dz"
  shows "tnv_ctx p' = tnv_ctx p \<and> sched p' = sched p
         \<and> trace p' = trace p @ [Scheduled Tnv_finish]
         \<and> (\<forall>a. a < uT_C (tnv_ctx p) \<or> uT_C (tnv_ctx p) + dx * dy * dz \<le> a
                \<longrightarrow> mem p' a = mem p a)"
proof -
  from assms(1) obtain n where
    l: "for_loop [0..n - 1] (\<lambda>device_id q. tnv_finish q device_id)
          (p\<lparr>trace := trace p @ [Scheduled Tnv_finish]\<rparr>) = Some p'"
    by (auto simp: schedule_def split: option.splits)
  show ?thesis
  proof (rule for_loop_invariant[OF l, where I = "\<lambda>q. tnv_ctx q = tnv_ctx p \<and> sched q = sched p
         \<and> trace q = trace p @ [Scheduled Tnv_finish]
         \<and> (\<forall>a. a < uT_C (tnv_ctx p) \<or> uT_C (tnv_ctx p) + dx * dy * dz \<le> a
                \<longrightarrow> mem q a = mem p a)"])
    show "tnv_ctx (p\<lparr>trace := trace p @ [Scheduled Tnv_finish]\<rparr>) = tnv_ctx p \<and>
      sched (p\<lparr>trace := trace p @ [Scheduled Tnv_finish]\<rparr>) = sched p \<and>
      trace (p\<lparr>trace := trace p @ [Scheduled Tnv_finish]\<rparr>) = trace p @ [Scheduled Tnv_finish] \<and>
      (\<forall>a. a < uT_C (tnv_ctx p) \<or> uT_C (tnv_ctx p) + dx * dy * dz \<le> a \<longrightarrow>
           mem (p\<lparr>trace := trace p @ [Scheduled Tnv_finish]\<rparr>) a = mem p a)"
      by simp
  next
    fix i t t'
    assume t: "tnv_ctx t = tnv_ctx p \<and> sched t = sched p
         \<and> trace t = trace p @ [Scheduled Tnv_finish]
         \<and> (\<forall>a. a < uT_C (tnv_ctx p) \<or> uT_C (tnv_ctx p) + dx * dy * dz \<le> a
                \<longrightarrow> mem t a = mem p a)"
      and f: "tnv_finish t i = Some t'"
    have s: "set_up_for t dx dy dz" using assms(2) t by (simp add: set_up_for_def)
    from tnv_finish_keeps[OF f] tnv_finish_outside[OF f s] t
    show "tnv_ctx t' = tnv_ctx p \<and> sched t' = sched p
         \<and> trace t' = trace p @ [Scheduled Tnv_finish]
         \<and> (\<forall>a. a < uT_C (tnv_ctx p) \<or> uT_C (tnv_ctx p) + dx * dy * dz \<le> a
                \<longrightarrow> mem t' a = mem p a)"
      by auto
  qed
qed

subsection \<open>The phases of a solve\<close>

lemma TNV_CPU_solve_phases:
  assumes "TNV_CPU_solve h env InputT uT lam maxIter tol dx dy dz p = Some (iter, p6, v, r)"
  shows "\<exists>p2 p4 p5.
    TNV_CPU_init env InputT uT dx dy dz (p\<lparr>tnv_ctx := (tnv_ctx p)\<lparr>lambda_C := 1 / (2 * lam)\<rparr>\<rparr>)
      = Some p2
    \<and> schedule Tnv_start tnv_start (p2\<lparr>tnv_ctx := (tnv_ctx p2)\<lparr>InputT_C := InputT, uT_C := uT\<rparr>\<rparr>)
      = Some p4
    \<and> pdhg_loop h tol dx dy dz (nat maxIter) 0 (p4, (5 / 10, 5 / 10, 2 / 10, 0), fLarge h)
      = Some (iter, p5, v, r)
    \<and> schedule Tnv_finish tnv_finish p5 = Some p6"
  using assms by (auto simp: TNV_CPU_solve_def Let_def bind_defs)

lemma schedule_finish_keeps:
  assumes "schedule Tnv_finish tnv_finish p = Some p'"
  shows "tnv_ctx p' = tnv_ctx p \<and> sched p' = sched p
         \<and> trace p' = trace p @ [Scheduled Tnv_finish]"
proof -
  from assms obtain n where
    l: "for_loop [0..n - 1] (\<lambda>device_id q. tnv_finish q device_id)
          (p\<lparr>trace := trace p @ [Scheduled Tnv_finish]\<rparr>) = Some p'"
    by (auto simp: schedule_def split: option.splits)
  show ?thesis
    by (rule for_loop_invariant[OF l, where I = "\<lambda>q. tnv_ctx q = tnv_ctx p \<and> sched q = sched p
         \<and> trace q = trace p @ [Scheduled Tnv_finish]"])
       (auto dest: tnv_finish_keeps)
qed

text \<open>
  A solve keeps the layout it finds, or sets one up; at its end the context holds the
  weight and the pointers of the call, and the scheduler exists.
\<close>

lemma TNV_CPU_solve_layout:
  assumes "TNV_CPU_solve h env InputT uT lam maxIter tol dx dy dz p = Some (iter, p', v, r)"
  shows "sched p' \<noteq> None"
    and "sched p \<noteq> None \<longrightarrow> layout p' = layout p"
    and "call_parameters p' = (1 / (2 * lam), InputT, uT)"
    and "sched p = None \<or> set_up_for p dx dy dz \<longrightarrow> set_up_for p' dx dy dz"
    and "sched p = None \<or> set_up_for p dx dy dz \<longrightarrow>
           (\<forall>a. a < uT \<or> uT + dx * dy * dz \<le> a \<longrightarrow> mem p' a = mem p a)"
proof -
  define p1 where "p1 = p\<lparr>tnv_ctx := (tnv_ctx p)\<lparr>lambda_C := 1 / (2 * lam)\<rparr>\<rparr>"
  from TNV_CPU_solve_phases[OF assms(1)] obtain p2 p4 p5 where
    i: "TNV_CPU_init env InputT uT dx dy dz p1 = Some p2"
    and s: "schedule Tnv_start tnv_start
              (p2\<lparr>tnv_ctx := (tnv_ctx p2)\<lparr>InputT_C := InputT, uT_C := uT\<rparr>\<rparr>) = Some p4"
    and l: "pdhg_loop h tol dx dy dz (nat maxIter) 0 (p4, (5 / 10, 5 / 10, 2 / 10, 0), fLarge h)
              = Some (iter, p5, v, r)"
    and f: "schedule Tnv_finish tnv_finish p5 = Some p'"
    unfolding p1_def by blast
  define p3 where "p3 = p2\<lparr>tnv_ctx := (tnv_ctx p2)\<lparr>InputT_C := InputT, uT_C := uT\<rparr>\<rparr>"
  have p2: "sched p2 \<noteq> None \<and> mem p2 = mem p
            \<and> lambda_C (tnv_ctx p2) = 1 / (2 * lam)
            \<and> (sched p \<noteq> None \<longrightarrow> layout p2 = layout p)
            \<and> (sched p = None \<or> set_up_for p dx dy dz \<longrightarrow> set_up_for p2 dx dy dz)"
  proof (cases "sched p = None")
    case True
    then have "sched p1 = None" by (simp add: p1_def)
    from TNV_CPU_init_fresh[OF this i] show ?thesis
      using True by (simp add: p1_def call_parameters_def)
  next
    case False
    then have "p2 = p1" using i by (simp add: TNV_CPU_init_again p1_def)
    then show ?thesis using False by (auto simp: p1_def set_up_for_def layout_def)
  qed
  have p3: "sched p3 \<noteq> None" "mem p3 = mem p"
    "call_parameters p3 = (1 / (2 * lam), InputT, uT)" "layout p3 = layout p2"
    using p2 by (simp_all add: p3_def call_parameters_def layout_def)
  have p4: "layout p4 = layout p3 \<and> call_parameters p4 = call_parameters p3
         \<and> mem p4 = mem p3 \<and> trace p4 = trace p3 @ [Scheduled Tnv_start]"
    by (rule schedule_keeps[OF s[folded p3_def]]) (rule tnv_start_keeps)
  have p5: "layout p5 = layout p4" "call_parameters p5 = call_parameters p4" "mem p5 = mem p4"
    using pdhg_loop_keeps[OF l] by simp_all
  have lay: "layout p5 = layout p2" and cp: "call_parameters p5 = (1 / (2 * lam), InputT, uT)"
    and m: "mem p5 = mem p"
    using p3 p4 p5 by simp_all
  note fin = schedule_finish_keeps[OF f]
  have lay': "layout p' = layout p2" using fin lay by (simp add: layout_def)
  show "sched p' \<noteq> None" using lay' p2 by (simp add: layout_def)
  show "sched p \<noteq> None \<longrightarrow> layout p' = layout p" using lay' p2 by simp
  show "call_parameters p' = (1 / (2 * lam), InputT, uT)"
    using fin cp by (simp add: call_parameters_def)
  show "sched p = None \<or> set_up_for p dx dy dz \<longrightarrow> set_up_for p' dx dy dz"
    using lay' p2 by (auto simp: set_up_for_def layout_def)
  show "sched p = None \<or> set_up_for p dx dy dz \<longrightarrow>
           (\<forall>a. a < uT \<or> uT + dx * dy * dz \<le> a \<longrightarrow> mem p' a = mem p a)"
  proof
    assume "sched p = None \<or> set_up_for p dx dy dz"
    then have "set_up_for p2 dx dy dz" using p2 by simp
    then have "set_up_for p5 dx dy dz" using lay by (simp add: set_up_for_def layout_def)
    from schedule_finish[OF f this] cp m
    show "\<forall>a. a < uT \<or> uT + dx * dy * dz \<le> a \<longrightarrow> mem p' a = mem p a"
      by (auto simp: call_parameters_def)
  qed
qed

section \<open>The step-size controller\<close>

lemmas solve_defs = TNV_CPU_main_def TNV_CPU_solve_def init_defs start_defs finish_defs
  restore_defs main_defs step_defs prox_defs Let_def c_arith buf_defs sched_defs sample_defs
  ramp_partition_def ingested_process_def

lemma step_size_controller_shrink:
  "1 < b \<Longrightarrow>
     step_size_controller (tau, sigma, alpha, started) b resprimal resdual
       = (((95 / 100 * tau) / b, (95 / 100 * sigma) / b, 2 / 10, started),
          (if started = 0 then Rollback else Warn))"
  by (simp add: step_size_controller_def Let_def)

lemma step_size_controller_accept:
  "\<not> 1 < b \<Longrightarrow>
     snd (step_size_controller (tau, sigma, alpha, started) b resprimal resdual) = Accept
     \<and> snd (snd (snd (fst (step_size_controller (tau, sigma, alpha, started) b resprimal
           resdual)))) = 1"
  by (simp add: step_size_controller_def Let_def)

lemma backtrack_events_restore:
  "Scheduled Tnv_restore \<in> set (backtrack_events action) \<longleftrightarrow> action = Rollback"
  by (cases action) (simp_all add: backtrack_events_def)

lemma backtrack_events_warning:
  "Backtrack_warning \<in> set (backtrack_events action) \<longleftrightarrow> action = Warn"
  by (cases action) (simp_all add: backtrack_events_def)

lemma pdhg_iteration_trace:
  assumes "pdhg_iteration h dx dy dz (p, (tau, sigma, alpha, started), r) = Some (p', v', r')"
  shows "\<exists>p3 resprimal resdual prod un qn.
    pdhg_statistics h dx dz tau sigma p = Some (p3, resprimal, resdual, prod, un, qn)
    \<and> v' = fst (step_size_controller (tau, sigma, alpha, started)
                 (balance tau sigma prod un qn) resprimal resdual)
    \<and> (Scheduled Tnv_restore \<in> set (drop (length (trace p)) (trace p'))
          \<longleftrightarrow> 1 < balance tau sigma prod un qn \<and> started = 0)
    \<and> (Backtrack_warning \<in> set (drop (length (trace p)) (trace p'))
          \<longleftrightarrow> 1 < balance tau sigma prod un qn \<and> started \<noteq> 0)"
proof -
  from pdhg_iteration_parts[OF assms] obtain p3 resprimal resdual prod un qn where
    s: "pdhg_statistics h dx dz tau sigma p = Some (p3, resprimal, resdual, prod, un, qn)"
    and v: "v' = fst (step_size_controller (tau, sigma, alpha, started)
                 (balance tau sigma prod un qn) resprimal resdual)"
    and b: "backtracking (snd (step_size_controller (tau, sigma, alpha, started)
                 (balance tau sigma prod un qn) resprimal resdual)) p3 = Some p'"
    by blast
  define action where "action = snd (step_size_controller (tau, sigma, alpha, started)
                 (balance tau sigma prod un qn) resprimal resdual)"
  have t: "trace p' = trace p @ Scheduled Tnv_step # backtrack_events action"
    using pdhg_statistics_keeps[OF s] backtracking_keeps[OF b] by (simp add: action_def)
  have a: "action = (if 1 < balance tau sigma prod un qn
                     then (if started = 0 then Rollback else Warn) else Accept)"
    using step_size_controller_shrink[of "balance tau sigma prod un qn" tau sigma alpha started
        resprimal resdual]
      step_size_controller_accept[of "balance tau sigma prod un qn" tau sigma alpha started
        resprimal resdual]
    by (simp add: action_def)
  have "Scheduled Tnv_restore \<in> set (drop (length (trace p)) (trace p'))
          \<longleftrightarrow> 1 < balance tau sigma prod un qn \<and> started = 0"
    by (simp add: t backtrack_events_restore a)
  moreover have "Backtrack_warning \<in> set (drop (length (trace p)) (trace p'))
          \<longleftrightarrow> 1 < balance tau sigma prod un qn \<and> started \<noteq> 0"
    by (simp add: t backtrack_events_warning a)
  ultimately show ?thesis using s v by blast
qed

lemma pdhg_loop_no_restore:
  assumes "pdhg_loop h tol dx dy dz n iter (p, (tau, sigma, alpha, started), r)
             = Some (iter', p', v', r')"
    and "started \<noteq> 0"
  shows "Scheduled Tnv_restore \<notin> set (drop (length (trace p)) (trace p'))
         \<and> snd (snd (snd v')) \<noteq> 0"
  using pdhg_loop_keeps[OF assms(1)] assms(2) by auto

text \<open>
  C4. Whenever the balance ratio of an iteration is \<open>b > 1\<close>, the controller sets
  \<open>tau\<close> to \<open>beta tau / b\<close> and \<open>sigma\<close> to \<open>beta sigma / b\<close> (\<open>beta = 0.95\<close>) and resets
  \<open>alpha\<close> to \<open>alpha0 = 0.2\<close>, leaving \<^verbatim>\<open>started\<close> as it is; an iteration with
  \<open>b \<le> 1\<close> sets \<^verbatim>\<open>started\<close>. An iteration hands \<^verbatim>\<open>tnv_restore\<close> to the scheduler
  (which runs it on every partition) if and only if \<open>b > 1\<close> and \<^verbatim>\<open>started\<close> is still
  0, and writes the warning if and only if \<open>b > 1\<close> and \<^verbatim>\<open>started\<close> is set. Once
  \<^verbatim>\<open>started\<close> is set it stays set, and the rest of the loop never schedules
  \<^verbatim>\<open>tnv_restore\<close> again.
\<close>

theorem C4_backtracking:
  "(1 < b \<longrightarrow>
      step_size_controller (tau, sigma, alpha, started) b resprimal resdual
        = (((95 / 100 * tau) / b, (95 / 100 * sigma) / b, 2 / 10, started),
           (if started = 0 then Rollback else Warn)))
   \<and> (\<not> 1 < b \<longrightarrow>
      snd (step_size_controller (tau, sigma, alpha, started) b resprimal resdual) = Accept
      \<and> snd (snd (snd (fst (step_size_controller (tau, sigma, alpha, started) b resprimal
            resdual)))) = 1)
   \<and> (pdhg_iteration h dx dy dz (p, (tau, sigma, alpha, started), r) = Some (p', v', r') \<longrightarrow>
      (\<exists>p3 rp rdl prod un qn.
          pdhg_statistics h dx dz tau sigma p = Some (p3, rp, rdl, prod, un, qn)
          \<and> v' = fst (step_size_controller (tau, sigma, alpha, started)
                       (balance tau sigma prod un qn) rp rdl)
          \<and> (Scheduled Tnv_restore \<in> set (drop (length (trace p)) (trace p'))
                \<longleftrightarrow> 1 < balance tau sigma prod un qn \<and> started = 0)
          \<and> (Backtrack_warning \<in> set (drop (length (trace p)) (trace p'))
                \<longleftrightarrow> 1 < balance tau sigma prod un qn \<and> started \<noteq> 0)))
   \<and> (pdhg_loop h tol dx dy dz n iter (p, (tau, sigma, alpha, started), r)
         = Some (iter', q', w', r'') \<and> started \<noteq> 0 \<longrightarrow>
      Scheduled Tnv_restore \<notin> set (drop (length (trace p)) (trace q'))
      \<and> snd (snd (snd w')) \<noteq> 0)"
  using step_size_controller_shrink[of b tau sigma alpha started resprimal resdual]
    step_size_controller_accept[of b tau sigma alpha started resprimal resdual]
    pdhg_iteration_trace[of h dx dy dz p tau sigma alpha started r p' v' r']
    pdhg_loop_no_restore[of h tol dx dy dz n iter p tau sigma alpha started r iter' q' w' r'']
  by blast

text \<open>
  On the sample input the first iteration has \<open>b = 4/3\<close>. With \<^verbatim>\<open>started = 0\<close> it
  shrinks both steps to \<open>0.95 \<times> 0.5 / (4/3) = 57/160\<close> and schedules \<^verbatim>\<open>tnv_restore\<close>;
  entered with \<^verbatim>\<open>started = 1\<close> it shrinks the steps alike and only warns.
\<close>

theorem C4_backtracking_witness:
  "(1::real) < 4 / 3
   \<and> step_size_controller (1 / 2, 1 / 2, 2 / 10, 0) (4 / 3) 2 1
        = ((57 / 160, 57 / 160, 2 / 10, 0), Rollback)
   \<and> map_option (\<lambda>(p, v, r). (v, drop 2 (trace p)))
        (pdhg_iteration sample_consts 1 2 1 (ingested_process, (1 / 2, 1 / 2, 2 / 10, 0), 100000000))
        = Some ((57 / 160, 57 / 160, 2 / 10, 0), [Scheduled Tnv_step, Scheduled Tnv_restore])
   \<and> map_option (\<lambda>(iter, p, v, r). (v, drop 2 (trace p)))
        (pdhg_loop sample_consts 0 1 2 1 1 0 (ingested_process, (1 / 2, 1 / 2, 2 / 10, 1), 100000000))
        = Some ((57 / 160, 57 / 160, 2 / 10, 1), [Scheduled Tnv_step, Backtrack_warning])"
proof -
  have i: "\<exists>p'. pdhg_iteration sample_consts 1 2 1
                  (ingested_process, (1 / 2, 1 / 2, 2 / 10, 0), 100000000)
                = Some (p', (57 / 160, 57 / 160, 2 / 10, 0), 3 / 2)
              \<and> drop 2 (trace p') = [Scheduled Tnv_step, Scheduled Tnv_restore]"
    by (simp add: solve_defs cong: eval_cong)
  have l: "\<exists>p'. pdhg_loop sample_consts 0 1 2 1 1 0
                  (ingested_process, (1 / 2, 1 / 2, 2 / 10, 1), 100000000)
                = Some (1, p', (57 / 160, 57 / 160, 2 / 10, 1), 3 / 2)
              \<and> drop 2 (trace p') = [Scheduled Tnv_step, Backtrack_warning]"
    by (simp add: solve_defs cong: eval_cong)
  from i obtain p' where p': "pdhg_iteration sample_consts 1 2 1
      (ingested_process, (1 / 2, 1 / 2, 2 / 10, 0), 100000000)
        = Some (p', (57 / 160, 57 / 160, 2 / 10, 0), 3 / 2)"
    "drop 2 (trace p') = [Scheduled Tnv_step, Scheduled Tnv_restore]"
    by blast
  from l obtain q' where q': "pdhg_loop sample_consts 0 1 2 1 1 0
      (ingested_process, (1 / 2, 1 / 2, 2 / 10, 1), 100000000)
        = Some (1, q', (57 / 160, 57 / 160, 2 / 10, 1), 3 / 2)"
    "drop 2 (trace q') = [Scheduled Tnv_step, Backtrack_warning]"
    by blast
  have t: "length (trace ingested_process) = 2" by (simp add: ingested_process_def)
  from C4_backtracking[of "4 / 3" "1 / 2" "1 / 2" "2 / 10" 0 2 1 sample_consts 1 2 1
      ingested_process 100000000 p' "(57 / 160, 57 / 160, 2 / 10, 0)" "3 / 2"]
  have a: "step_size_controller (1 / 2, 1 / 2, 2 / 10, 0) (4 / 3) 2 1
             = ((57 / 160, 57 / 160, 2 / 10, 0), Rollback)"
    and b: "Scheduled Tnv_restore \<in> set (drop 2 (trace p'))"
    using p' by (simp_all add: t)
  from C4_backtracking[of 0 "1 / 2" "1 / 2" "2 / 10" 1 0 0 sample_consts 1 2 1
      ingested_process 100000000 _ _ _ 0 1 0 1 q' "(57 / 160, 57 / 160, 2 / 10, 1)" "3 / 2"]
  have c: "Scheduled Tnv_restore \<notin> set (drop 2 (trace q'))"
    using q' by (simp add: t)
  show ?thesis using a b c p' q' by simp
qed

section \<open>The scheduler singleton\<close>

lemma pdhg_statistics_refreshes:
  "pdhg_statistics h dx dz tau sigma
     (p\<lparr>tnv_ctx := (tnv_ctx p)\<lparr>sigma_C := a, tau_C := b, theta_C := c\<rparr>\<rparr>)
   = pdhg_statistics h dx dz tau sigma p"
  by (simp add: pdhg_statistics_def)

text \<open>
  C10. Once the global \<^verbatim>\<open>sched\<close> is set, \<^verbatim>\<open>TNV_CPU_init\<close> returns at once and
  changes nothing, whatever dimensions it is given. A solve that finds \<^verbatim>\<open>sched\<close> set
  keeps the layout (the worker pool, the stored \<^verbatim>\<open>dimX\<close>, \<^verbatim>\<open>dimY\<close>, \<^verbatim>\<open>dimZ\<close>,
  \<^verbatim>\<open>padZ\<close> and thread count, and the rows of every partition) and leaves in the
  context the weight \<open>1 / (2 lambda)\<close> and the two pointers of the call; every pass of
  the loop overwrites the step sizes of the context with its own. Every solve that
  returns leaves \<^verbatim>\<open>sched\<close> set, so this is the case of every call after the first.
\<close>

theorem C10_initialisation_once:
  "(sched p \<noteq> None \<longrightarrow> TNV_CPU_init env InputT uT dx dy dz p = Some p)
   \<and> (sched p \<noteq> None
        \<and> TNV_CPU_solve h env InputT uT lam maxIter tol dx dy dz p = Some (iter, p', v, r) \<longrightarrow>
      layout p' = layout p \<and> call_parameters p' = (1 / (2 * lam), InputT, uT))
   \<and> (TNV_CPU_solve h env InputT uT lam maxIter tol dx dy dz p = Some (iter, p', v, r) \<longrightarrow>
      sched p' \<noteq> None)
   \<and> pdhg_statistics h dx dz tau sigma
        (p\<lparr>tnv_ctx := (tnv_ctx p)\<lparr>sigma_C := a, tau_C := b, theta_C := c\<rparr>\<rparr>)
      = pdhg_statistics h dx dz tau sigma p"
proof (intro conjI impI)
  assume "sched p \<noteq> None"
  then show "TNV_CPU_init env InputT uT dx dy dz p = Some p"
    by (rule TNV_CPU_init_again)
next
  assume a: "sched p \<noteq> None
    \<and> TNV_CPU_solve h env InputT uT lam maxIter tol dx dy dz p = Some (iter, p', v, r)"
  then show "layout p' = layout p"
    using TNV_CPU_solve_layout(2) by blast
  from a show "call_parameters p' = (1 / (2 * lam), InputT, uT)"
    using TNV_CPU_solve_layout(3) by blast
next
  assume "TNV_CPU_solve h env InputT uT lam maxIter tol dx dy dz p = Some (iter, p', v, r)"
  then show "sched p' \<noteq> None"
    by (rule TNV_CPU_solve_layout(1))
next
  show "pdhg_statistics h dx dz tau sigma
        (p\<lparr>tnv_ctx := (tnv_ctx p)\<lparr>sigma_C := a, tau_C := b, theta_C := c\<rparr>\<rparr>)
      = pdhg_statistics h dx dz tau sigma p"
    by (rule pdhg_statistics_refreshes)
qed

text \<open>
  A second call on the process the sample input left behind, now with two processors
  and the dimensions \<open>3 \<times> 4 \<times> 5\<close>: the layout stays the one of the first call
  (one worker, \<open>1 \<times> 2 \<times> 1\<close>, one partition of two rows).
\<close>

theorem C10_initialisation_once_witness:
  "sched ingested_process \<noteq> None
   \<and> layout ingested_process = (Some 1, (1, 1, 2, 1, 1), [(0, 2, 2)])
   \<and> TNV_CPU_init two_cpus 20 30 3 4 5 ingested_process = Some ingested_process
   \<and> map_option (\<lambda>(iter, p, v, r). (layout p, call_parameters p))
        (TNV_CPU_solve sample_consts two_cpus 20 30 2 0 0 3 4 5 ingested_process)
        = Some ((Some 1, (1, 1, 2, 1, 1), [(0, 2, 2)]), (1 / 4, 20, 30))"
proof -
  have s: "sched ingested_process \<noteq> None" by (simp add: ingested_process_def)
  have l: "layout ingested_process = (Some 1, (1, 1, 2, 1, 1), [(0, 2, 2)])"
    by (simp add: layout_def geometry_def ingested_process_def ramp_partition_def)
  have "\<exists>p'. TNV_CPU_solve sample_consts two_cpus 20 30 2 0 0 3 4 5 ingested_process
          = Some (0, p', (1 / 2, 1 / 2, 2 / 10, 0), 100000000)"
    by (simp add: solve_defs cong: eval_cong)
  then obtain p' where
    e: "TNV_CPU_solve sample_consts two_cpus 20 30 2 0 0 3 4 5 ingested_process
          = Some (0, p', (1 / 2, 1 / 2, 2 / 10, 0), 100000000)"
    by blast
  from C10_initialisation_once[where p = ingested_process and env = two_cpus and InputT = 20
      and uT = 30 and dx = 3 and dy = 4 and dz = 5 and h = sample_consts and lam = 2
      and maxIter = 0 and tol = 0 and iter = 0 and p' = p' and v = "(1 / 2, 1 / 2, 2 / 10, 0)"
      and r = 100000000] s e
  have "TNV_CPU_init two_cpus 20 30 3 4 5 ingested_process = Some ingested_process"
    and "layout p' = layout ingested_process"
    and "call_parameters p' = (1 / (2 * 2), 20, 30)"
    by simp_all
  then show ?thesis using s l e by simp
qed

section \<open>The input volume\<close>

text \<open>
  C5, as the code has it. \<^verbatim>\<open>TNV_CPU_main\<close> writes to the caller's memory only in
  \<^verbatim>\<open>tnv_finish\<close>, and only to the cells \<open>uT, \<dots>, uT + dimX dimY dimZ - 1\<close>, provided the
  process is set up for the dimensions of the call (a first call sets it up so). When
  the two volumes do not overlap, every cell of \<^verbatim>\<open>InputT\<close> is therefore unchanged.
\<close>

theorem C5_input_unchanged:
  assumes "TNV_CPU_main h env InputT uT lam maxIter tol dx dy dz p = Some (ret, p')"
    and "sched p = None \<or> set_up_for p dx dy dz"
    and "InputT + dx * dy * dz \<le> uT \<or> uT + dx * dy * dz \<le> InputT"
  shows "(\<forall>a. InputT \<le> a \<and> a < InputT + dx * dy * dz \<longrightarrow> mem p' a = mem p a)
         \<and> (\<forall>a. a < uT \<or> uT + dx * dy * dz \<le> a \<longrightarrow> mem p' a = mem p a)"
proof -
  from assms(1) obtain iter v r where
    "TNV_CPU_solve h env InputT uT lam maxIter tol dx dy dz p = Some (iter, p', v, r)"
    by (auto simp: TNV_CPU_main_def split: option.splits)
  from TNV_CPU_solve_layout(5)[OF this] assms(2)
  have o: "\<forall>a. a < uT \<or> uT + dx * dy * dz \<le> a \<longrightarrow> mem p' a = mem p a"
    by blast
  then show ?thesis using assms(3) by auto
qed

theorem C5_input_unchanged_witness:
  "sched fresh_process = None \<and> (0::int) + 1 * 2 * 1 \<le> 10
   \<and> (mem fresh_process 0, mem fresh_process 1) = (0, 1)
   \<and> map_option (\<lambda>(ret, p). (mem p 0, mem p 1))
        (TNV_CPU_main sample_consts one_cpu 0 10 1 1 0 1 2 1 fresh_process) = Some (0, 1)"
proof -
  have "\<exists>ret p'. TNV_CPU_main sample_consts one_cpu 0 10 1 1 0 1 2 1 fresh_process
          = Some (ret, p')"
    by (simp add: solve_defs cong: eval_cong)
  then obtain ret p' where
    e: "TNV_CPU_main sample_consts one_cpu 0 10 1 1 0 1 2 1 fresh_process = Some (ret, p')"
    by blast
  have s: "sched fresh_process = None" by (simp add: fresh_process_def)
  have m: "(mem fresh_process 0, mem fresh_process 1) = (0, 1)"
    by (simp add: fresh_process_def ramp_memory_def)
  from C5_input_unchanged[OF e] s
  have "\<forall>a. 0 \<le> a \<and> a < 0 + 1 * 2 * 1 \<longrightarrow> mem p' a = mem fresh_process a"
    by simp
  then have "mem p' 0 = mem fresh_process 0" "mem p' 1 = mem fresh_process 1"
    by simp_all
  then show ?thesis using s m e by simp
qed

text \<open>
  Without the provisos the claim fails. Called with \<^verbatim>\<open>InputT\<close> and \<^verbatim>\<open>uT\<close> pointing to
  the same cells 0 and 1, which hold \<open>(0, 1)\<close>, the solve writes its result \<open>(0, 0)\<close>
  there, and the cell 1 of the input changes. And after a first call for two rows, a
  call for one row with the estimate at the cell 20 and the input at the cell 21
  still reads and writes two rows: the write-back stores \<open>(4/5, 4/5)\<close> at the cells 20
  and 21, and the input changes from 0 to \<open>4/5\<close>.
\<close>

theorem C5_counterexample:
  "mem fresh_process 1 = 1
   \<and> map_option (\<lambda>(ret, p). mem p 1)
        (TNV_CPU_main sample_consts one_cpu 0 0 1 1 0 1 2 1 fresh_process) = Some 0
   \<and> stair_memory 21 = 0
   \<and> map_option (\<lambda>(ret, p). mem p 21)
        (Option.bind
           (TNV_CPU_main sample_consts one_cpu 0 10 1 0 0 1 2 1 (fresh_process\<lparr>mem := stair_memory\<rparr>))
           (\<lambda>(ret, p). TNV_CPU_main sample_consts one_cpu 21 20 1 1 0 1 1 1 p)) = Some (4 / 5)"
proof -
  have "map_option (\<lambda>(ret, p). mem p 1)
        (TNV_CPU_main sample_consts one_cpu 0 0 1 1 0 1 2 1 fresh_process) = Some 0"
    by (simp add: solve_defs cong: eval_cong)
  moreover have "map_option (\<lambda>(ret, p). mem p 21)
        (Option.bind
           (TNV_CPU_main sample_consts one_cpu 0 10 1 0 0 1 2 1 (fresh_process\<lparr>mem := stair_memory\<rparr>))
           (\<lambda>(ret, p). TNV_CPU_main sample_consts one_cpu 21 20 1 1 0 1 1 1 p)) = Some (4 / 5)"
    by (simp add: solve_defs stair_memory_def cong: eval_cong)
  ultimately show ?thesis
    by (simp add: fresh_process_def ramp_memory_def stair_memory_def)
qed

section \<open>Roll-back\<close>

lemma memset0_zero:
  "memset0 b n = Some b' \<Longrightarrow> take (nat n) b' = replicate (nat n) 0 \<and> length b' = length b"
  by (auto simp: memset0_def split: if_splits)

text \<open>
  \<^verbatim>\<open>tnv_restore\<close> leaves the six mutable buffers of a partition zero, over \<open>copY\<close> rows
  for \<^verbatim>\<open>u\<close> and \<^verbatim>\<open>div\<close> and over \<open>stepY\<close> rows for the others, and the copy of the input
  as it is.
\<close>

lemma tnv_restore_thread_zero:
  assumes "tnv_restore_thread c ctx = Some ctx'"
  shows "take (nat (dimX_C c * copY_C ctx * padZ_C c)) (u_C ctx')
           = replicate (nat (dimX_C c * copY_C ctx * padZ_C c)) 0
         \<and> take (nat (dimX_C c * copY_C ctx * padZ_C c)) (div_C ctx')
           = replicate (nat (dimX_C c * copY_C ctx * padZ_C c)) 0
         \<and> take (nat (dimX_C c * stepY_C ctx * padZ_C c)) (qx_C ctx')
           = replicate (nat (dimX_C c * stepY_C ctx * padZ_C c)) 0
         \<and> take (nat (dimX_C c * stepY_C ctx * padZ_C c)) (qy_C ctx')
           = replicate (nat (dimX_C c * stepY_C ctx * padZ_C c)) 0
         \<and> take (nat (dimX_C c * stepY_C ctx * padZ_C c)) (gradx_C ctx')
           = replicate (nat (dimX_C c * stepY_C ctx * padZ_C c)) 0
         \<and> take (nat (dimX_C c * stepY_C ctx * padZ_C c)) (grady_C ctx')
           = replicate (nat (dimX_C c * stepY_C ctx * padZ_C c)) 0
         \<and> Input_C ctx' = Input_C ctx"
  using assms
  by (auto simp: tnv_restore_thread_def Let_def bind_defs dest!: memset0_zero)

text \<open>
  C1 fails on the code when the estimate volume is not zero. On the sample input (input
  and estimate both \<open>(0, 1)\<close>, one partition) a solve without iterations shows the
  state after ingest: \<^verbatim>\<open>u\<close> holds \<open>(0, 1)\<close> and its spare halo cell. With one iteration
  the balance ratio is \<open>4/3\<close>, \<^verbatim>\<open>tnv_restore\<close> is scheduled, and \<^verbatim>\<open>u\<close> is left all zero,
  which the write-back then stores into the estimate.
\<close>

theorem C1_restore_is_not_ingest:
  "map_option (\<lambda>(iter, p, v, r). (trace p, map u_C (thr_ctx_C (tnv_ctx p)), mem p 10, mem p 11))
     (TNV_CPU_solve sample_consts one_cpu 0 10 1 0 0 1 2 1 fresh_process)
     = Some ([Scheduled Tnv_init, Scheduled Tnv_start, Scheduled Tnv_finish], [[0, 1, 0]], 0, 1)
   \<and> map_option (\<lambda>(iter, p, v, r). (trace p, map u_C (thr_ctx_C (tnv_ctx p)), mem p 10, mem p 11))
     (TNV_CPU_solve sample_consts one_cpu 0 10 1 1 0 1 2 1 fresh_process)
     = Some ([Scheduled Tnv_init, Scheduled Tnv_start, Scheduled Tnv_step, Scheduled Tnv_restore,
              Scheduled Tnv_finish], [[0, 0, 0]], 0, 0)"
  by (simp add: solve_defs cong: eval_cong)

section \<open>The call of \<^verbatim>\<open>coefF\<close> in the iteration\<close>

lemma prox_diag_l1:
  "prox_diag h s1 s2 sg 1 = Some (max (s1 - 1 / sg) 0, max (s2 - 1 / sg) 0)"
  by (simp add: prox_diag_def Let_def)

lemma prox_diag_float_l1:
  "prox_diag_float h s1 s2 sg 1 = Some (MAX_C h (s1 - 1 / sg) 0, MAX_C h (s2 - 1 / sg) 0)"
  by (simp add: prox_diag_float_def Let_def)

lemma MAX_C_consts:
  "MAX_NaN h' = MAX_NaN h \<Longrightarrow> MAX_C h' = MAX_C h"
  by (intro ext) (simp add: MAX_C_def)

lemma eigenvalues_float_consts:
  "MAX_NaN h' = MAX_NaN h \<Longrightarrow> eigenvalues_float h' = eigenvalues_float h"
  by (intro ext) (simp add: eigenvalues_float_def MAX_C_consts[of h' h])

lemma eigenvectors_float_consts:
  assumes "fTiny h' = fTiny h" and "MAX_NaN h' = MAX_NaN h"
  shows "eigenvectors_float h' = eigenvectors_float h"
proof (intro ext)
  fix M1 M2 M3
  show "eigenvectors_float h' M1 M2 M3 = eigenvectors_float h M1 M2 M3"
    unfolding eigenvectors_float_def eigenvalues_float_consts[OF assms(2)] assms(1) ..
qed

lemma step_prox_consts:
  "fTiny h' = fTiny h \<Longrightarrow> MAX_NaN h' = MAX_NaN h \<Longrightarrow> step_prox h' = step_prox h"
  by (intro ext)
     (simp add: step_prox_def coefF_def prox_diag_float_l1 singular_values_float_def
        eigenvalues_float_consts[of h' h] eigenvectors_float_consts[of h' h]
        MAX_C_consts[of h' h])

text \<open>
  For a matrix and a step of moderate size the call hands back three numbers, those of
  the exact stages, and the step goes on with them.
\<close>

lemma step_prox_in_range:
  assumes "\<bar>M1\<bar> \<le> 2 ^ 60" and "\<bar>M2\<bar> \<le> 2 ^ 60" and "\<bar>M3\<bar> \<le> 2 ^ 60"
    and "1 / 2 ^ 60 \<le> sigma" and "sigma \<le> 2 ^ 60" and "0 \<le> fTiny h"
  shows "\<exists>t. coefF_exact h M1 M2 M3 sigma 1 = Some t
             \<and> Option.bind (step_prox h (Finite M1) (Finite M2) (Finite M3) (Finite sigma)) numbers
                 = Some t"
proof -
  from coefF_in_range[OF assms, of 1 1 0] obtain t0 t1 t2 where
    "coefF_exact h M1 M2 M3 sigma 1 = Some (t0, t1, t2)"
    "coefF h (Finite M1) (Finite M2) (Finite M3) (Finite sigma) 1 1 0
       = Some (Finite t0, Finite t1, Finite t2)"
    by blast
  then show ?thesis by (simp add: step_prox_def)
qed

lemma step_pixel_consts:
  assumes "fTiny h' = fTiny h" and "MAX_NaN h' = MAX_NaN h"
  shows "step_pixel h' = step_pixel h"
proof (intro ext)
  fix c j i s
  show "step_pixel h' c j i s = step_pixel h c j i s"
    unfolding step_pixel_def step_prox_consts[OF assms] ..
qed

lemma tnv_step_thread_consts:
  assumes "fTiny h' = fTiny h" and "MAX_NaN h' = MAX_NaN h"
  shows "tnv_step_thread h' = tnv_step_thread h"
proof (intro ext)
  fix c ctx
  show "tnv_step_thread h' c ctx = tnv_step_thread h c ctx"
    unfolding tnv_step_thread_def step_pixel_consts[OF assms] ..
qed

lemma tnv_step_consts:
  assumes "fTiny h' = fTiny h" and "MAX_NaN h' = MAX_NaN h"
  shows "tnv_step h' = tnv_step h"
proof (intro ext)
  fix p d
  show "tnv_step h' p d = tnv_step h p d"
    unfolding tnv_step_def tnv_step_thread_consts[OF assms] ..
qed

lemma pdhg_iteration_consts:
  assumes "fTiny h' = fTiny h" and "MAX_NaN h' = MAX_NaN h"
  shows "pdhg_iteration h' = pdhg_iteration h"
proof (intro ext)
  fix dx dy dz s
  show "pdhg_iteration h' dx dy dz s = pdhg_iteration h dx dy dz s"
    unfolding pdhg_iteration_def pdhg_statistics_def tnv_step_consts[OF assms] ..
qed

lemma pdhg_loop_consts:
  assumes "fTiny h' = fTiny h" and "MAX_NaN h' = MAX_NaN h"
  shows "pdhg_loop h' tol dx dy dz n iter s = pdhg_loop h tol dx dy dz n iter s"
proof (induction n arbitrary: iter s)
  case 0
  show ?case by simp
next
  case (Suc n)
  show ?case
    unfolding pdhg_loop.simps pdhg_iteration_consts[OF assms] Suc.IH ..
qed

text \<open>
  C9. The one call of \<^verbatim>\<open>coefF\<close> in the program, in \<^verbatim>\<open>tnv_step\<close>, passes \<open>p = 1\<close>. With
  \<open>p = 1\<close> the soft-threshold branch is taken, whatever \<^verbatim>\<open>INFNORM\<close> is: the call
  always returns, with the singular values reduced by \<open>1 / sigma\<close> and floored at 0
  (in \<^verbatim>\<open>float\<close> values and in exact arithmetic alike), and the water-filling loop is not
  run. Hence neither \<^verbatim>\<open>tnv_step\<close> nor a whole solve depends on \<^verbatim>\<open>INFNORM\<close>, and
  \<^verbatim>\<open>tnv_step\<close> does not depend on \<^verbatim>\<open>fLarge\<close>, the two constants only that branch reads.
\<close>

theorem C9_soft_threshold_only:
  "step_prox h M1 M2 M3 sg = coefF h M1 M2 M3 sg 1 1 0
   \<and> prox_diag h s1 s2 sigma 1 = Some (max (s1 - 1 / sigma) 0, max (s2 - 1 / sigma) 0)
   \<and> prox_diag_float h f1 f2 sg 1 = Some (MAX_C h (f1 - 1 / sg) 0, MAX_C h (f2 - 1 / sg) 0)
   \<and> step_prox h M1 M2 M3 sg \<noteq> None
   \<and> tnv_step_thread (h\<lparr>fLarge := fl, INFNORM := n\<rparr>) c ctx = tnv_step_thread h c ctx
   \<and> TNV_CPU_solve (h\<lparr>INFNORM := n\<rparr>) env InputT uT lam maxIter tol dx dy dz p
       = TNV_CPU_solve h env InputT uT lam maxIter tol dx dy dz p"
proof (intro conjI)
  show "step_prox h M1 M2 M3 sg = coefF h M1 M2 M3 sg 1 1 0"
    by (simp add: step_prox_def)
  show "prox_diag h s1 s2 sigma 1 = Some (max (s1 - 1 / sigma) 0, max (s2 - 1 / sigma) 0)"
    by (rule prox_diag_l1)
  show "prox_diag_float h f1 f2 sg 1 = Some (MAX_C h (f1 - 1 / sg) 0, MAX_C h (f2 - 1 / sg) 0)"
    by (rule prox_diag_float_l1)
  show "step_prox h M1 M2 M3 sg \<noteq> None"
    by (simp add: step_prox_def coefF_def prox_diag_float_l1 Let_def split: prod.splits)
  show "tnv_step_thread (h\<lparr>fLarge := fl, INFNORM := n\<rparr>) c ctx = tnv_step_thread h c ctx"
    by (simp add: tnv_step_thread_consts[of "h\<lparr>fLarge := fl, INFNORM := n\<rparr>" h])
  show "TNV_CPU_solve (h\<lparr>INFNORM := n\<rparr>) env InputT uT lam maxIter tol dx dy dz p
       = TNV_CPU_solve h env InputT uT lam maxIter tol dx dy dz p"
    by (simp add: TNV_CPU_solve_def pdhg_loop_consts[of "h\<lparr>INFNORM := n\<rparr>" h])
qed

section \<open>The primal residual of a partition\<close>

subsection \<open>Sums over a loop\<close>

lemma for_loop_upto_sum_nat:
  assumes "for_loop [0..int n - 1] body s = Some s'"
    and "\<And>x t t'. 0 \<le> x \<Longrightarrow> x < int n \<Longrightarrow> for_loop [0..x - 1] body s = Some t
           \<Longrightarrow> body x t = Some t' \<Longrightarrow> f t' = f t + g x \<and> P x"
  shows "f s' = f s + (\<Sum>x\<leftarrow>[0..int n - 1]. g x) \<and> (\<forall>x. 0 \<le> x \<and> x < int n \<longrightarrow> P x)"
  using assms
proof (induction n arbitrary: s')
  case 0
  then show ?case by auto
next
  case (Suc n)
  have l: "[0..int (Suc n) - 1] = [0..int n - 1] @ [int n]"
    using upto_snoc[of "int n"] by simp
  from Suc.prems(1)[unfolded l] obtain t where
    t: "for_loop [0..int n - 1] body s = Some t" and b: "body (int n) t = Some s'"
    by (auto simp: for_loop_append split: option.splits)
  have ih: "f t = f s + (\<Sum>x\<leftarrow>[0..int n - 1]. g x) \<and> (\<forall>x. 0 \<le> x \<and> x < int n \<longrightarrow> P x)"
  proof (rule Suc.IH[OF t])
    fix x u u'
    assume "0 \<le> x" "x < int n" "for_loop [0..x - 1] body s = Some u" "body x u = Some u'"
    then show "f u' = f u + g x \<and> P x" by (intro Suc.prems(2)) simp_all
  qed
  have st: "f s' = f t + g (int n) \<and> P (int n)"
    by (rule Suc.prems(2)[OF _ _ t b]) simp_all
  have "\<forall>x. 0 \<le> x \<and> x < int (Suc n) \<longrightarrow> P x"
  proof (intro allI impI)
    fix x assume "0 \<le> x \<and> x < int (Suc n)"
    then have "x < int n \<or> x = int n" by auto
    then show "P x" using ih st \<open>0 \<le> x \<and> x < int (Suc n)\<close> by auto
  qed
  moreover have "(\<Sum>x\<leftarrow>[0..int (Suc n) - 1]. g x) = (\<Sum>x\<leftarrow>[0..int n - 1]. g x) + g (int n)"
    unfolding l by simp
  ultimately show ?case using ih st by (simp only: add.assoc)
qed

lemma for_loop_upto_sum:
  assumes "for_loop [0..N - 1] body s = Some s'"
    and "\<And>x t t'. 0 \<le> x \<Longrightarrow> x < N \<Longrightarrow> for_loop [0..x - 1] body s = Some t
           \<Longrightarrow> body x t = Some t' \<Longrightarrow> f t' = f t + g x \<and> P x"
  shows "f s' = f s + (\<Sum>x\<leftarrow>[0..N - 1]. g x) \<and> (\<forall>x. 0 \<le> x \<and> x < N \<longrightarrow> P x)"
proof (cases "0 \<le> N")
  case True
  then have n: "int (nat N) = N" by simp
  show ?thesis
    using for_loop_upto_sum_nat[of "nat N" body s s' f g P] assms unfolding n by blast
next
  case False
  then show ?thesis using assms(1) by auto
qed

lemma for_loop_upto_next:
  assumes "for_loop [0..x - 1] body s = Some t" and "body x t = Some t'" and "0 \<le> x"
  shows "for_loop [0..x + 1 - 1] body s = Some t'"
proof -
  have "[0..x + 1 - 1] = [0..x - 1] @ [x]" using upto_snoc[OF assms(3)] by simp
  then show ?thesis using assms(1,2) by (simp add: for_loop_append)
qed

subsection \<open>One pass over a channel\<close>

lemma rd_wr_same: "wr b n v = Some b' \<Longrightarrow> rd b' n = Some v"
  by (auto simp: rd_def wr_def split: if_splits)

lemma step_dual_resprimal:
  assumes "step_dual c j i t a k ctx = Some ctx'"
  shows "\<exists>udiff d d'.
           rd (udiff_C ctx) (i * padZ_C c + k) = Some udiff
           \<and> rd (div_C ctx) ((j * dimX_C c + i) * padZ_C c + k) = Some d
           \<and> rd (div_C ctx') ((j * dimX_C c + i) * padZ_C c + k) = Some d'
           \<and> resprimal_C ctx' = resprimal_C ctx
               + (if offY_C ctx = 0 \<or> 0 < j then \<bar>1 / tau_C c * udiff + (d - d')\<bar> else 0)"
  using assms
  by (cases t) (auto simp: step_dual_def Let_def bind_defs resprimal_counted_def rd_wr_same)

lemma step_gradient_resprimal:
  "step_gradient c j i k s = Some s' \<Longrightarrow>
     resprimal_C (fst s') = resprimal_C (fst s) \<and> offY_C (fst s') = offY_C (fst s)"
  by (cases s) (auto simp: step_gradient_def Let_def bind_defs)

lemma step_dual_not_counted:
  "step_dual c j i t a k ctx = Some ctx' \<Longrightarrow>
     offY_C ctx' = offY_C ctx
     \<and> (\<not> resprimal_counted (offY_C ctx) j \<longrightarrow> resprimal_C ctx' = resprimal_C ctx)"
  by (cases t) (auto simp: step_dual_def Let_def bind_defs)

subsection \<open>What the passes leave alone\<close>

lemma step_first_row_resprimal:
  "step_first_row c i k ctx = Some ctx' \<Longrightarrow>
     resprimal_C ctx' = resprimal_C ctx \<and> offY_C ctx' = offY_C ctx"
  by (auto simp: step_first_row_def Let_def bind_defs)

lemma step_entry_resprimal:
  assumes "step_entry c ctx = Some s"
  shows "resprimal_C (fst s) = 0 \<and> offY_C (fst s) = offY_C ctx"
proof -
  define ctx0 where "ctx0 = ctx\<lparr>resprimal_C := 0, resdual_C := 0, product_C := 0, unorm_C := 0,
                                 qnorm_C := 0\<rparr>"
  from assms obtain ctx1 where
    f: "for_loop [0..dimX_C c - 1] (\<lambda>i. for_loop [0..dimZ_C c - 1] (\<lambda>k. step_first_row c i k))
              ctx0 = Some ctx1"
    and s: "fst s = ctx1"
    by (auto simp: step_entry_def Let_def bind_defs ctx0_def split: if_splits)
  have "resprimal_C ctx1 = 0 \<and> offY_C ctx1 = offY_C ctx"
    by (rule for_loop_invariant[OF f, where I = "\<lambda>x. resprimal_C x = 0 \<and> offY_C x = offY_C ctx"],
        simp add: ctx0_def)
       (erule for_loop_invariant, assumption, simp add: step_first_row_resprimal)
  then show ?thesis by (simp add: s)
qed

lemma tnv_step_thread_rows:
  "tnv_step_thread h c ctx = do {
     s \<leftarrow> step_entry c ctx;
     (ctx2, a2) \<leftarrow> for_loop [0..stepY_C ctx - 1]
                    (\<lambda>j. for_loop [0..dimX_C c - 1] (\<lambda>i. step_pixel h c j i)) s;
     Some ctx2
   }"
  by (simp add: tnv_step_thread_def step_entry_def Let_def)

lemma step_dual_offY:
  assumes "for_loop xs (step_dual c j i t a) s = Some s'"
  shows "offY_C s' = offY_C s"
  by (rule for_loop_invariant[OF assms, where I = "\<lambda>x. offY_C x = offY_C s"])
     (auto dest: step_dual_not_counted)

lemma step_pixel_offY:
  assumes "for_loop xs (\<lambda>i. step_pixel h c j i) s = Some s'"
  shows "offY_C (fst s') = offY_C (fst s)"
proof -
  have "geometry (fst s') = geometry (fst s)"
    by (rule for_loop_invariant[OF assms, where I = "\<lambda>x. geometry (fst x) = geometry (fst s)"])
       (auto dest: step_pixel_geometry)
  then show ?thesis by (simp add: geometry_def)
qed

subsection \<open>The channels of a pixel, the pixels of a row, the rows of a partition\<close>

lemma dual_loop_residual:
  assumes ds: "dual_start h c ctx j i = Some (ctx1, a1, t')"
    and lp: "for_loop [0..dimZ_C c - 1] (step_dual c j i t' a1) ctx1 = Some ctx2"
    and off: "offY_C ctx1 = offY_C ctx"
  shows "resprimal_C ctx2 = resprimal_C ctx1
           + (\<Sum>k\<leftarrow>[0..dimZ_C c - 1].
                if offY_C ctx = 0 \<or> 0 < j then the (primal_term h c ctx j i k) else 0)
         \<and> (\<forall>k. 0 \<le> k \<and> k < dimZ_C c \<longrightarrow> primal_term h c ctx j i k \<noteq> None)"
proof (rule for_loop_upto_sum[OF lp])
  fix k t u
  assume k: "0 \<le> k" "k < dimZ_C c"
    and t: "for_loop [0..k - 1] (step_dual c j i t' a1) ctx1 = Some t"
    and u: "step_dual c j i t' a1 k t = Some u"
  have b: "before_channel h c ctx j i k = Some t"
    by (simp add: before_channel_def ds t)
  have b': "before_channel h c ctx j i (k + 1) = Some u"
    using for_loop_upto_next[OF t u k(1)] by (simp add: before_channel_def ds)
  have o: "offY_C t = offY_C ctx" using step_dual_offY[OF t] off by simp
  from step_dual_resprimal[OF u] obtain udiff d d' where
    r: "rd (udiff_C t) (i * padZ_C c + k) = Some udiff"
       "rd (div_C t) ((j * dimX_C c + i) * padZ_C c + k) = Some d"
       "rd (div_C u) ((j * dimX_C c + i) * padZ_C c + k) = Some d'"
    and e: "resprimal_C u = resprimal_C t
              + (if offY_C t = 0 \<or> 0 < j then \<bar>1 / tau_C c * udiff + (d - d')\<bar> else 0)"
    by blast
  have p: "primal_term h c ctx j i k = Some \<bar>1 / tau_C c * udiff + (d - d')\<bar>"
    by (simp add: primal_term_def b b' r)
  show "resprimal_C u = resprimal_C t
          + (if offY_C ctx = 0 \<or> 0 < j then the (primal_term h c ctx j i k) else 0)
        \<and> primal_term h c ctx j i k \<noteq> None"
    using e o p by simp
qed

lemma step_pixel_residual:
  assumes bp: "before_pixel h c ctx j i = Some s"
    and sp: "step_pixel h c j i s = Some s'"
    and off: "offY_C (fst s) = offY_C ctx"
  shows "resprimal_C (fst s') = resprimal_C (fst s)
           + (\<Sum>k\<leftarrow>[0..dimZ_C c - 1].
                if offY_C ctx = 0 \<or> 0 < j then the (primal_term h c ctx j i k) else 0)
         \<and> (\<forall>k. 0 \<le> k \<and> k < dimZ_C c \<longrightarrow> primal_term h c ctx j i k \<noteq> None)"
proof -
  obtain ctx0 a where s: "s = (ctx0, a)" by (cases s)
  from sp obtain g t t' where
    g: "for_loop [0..dimZ_C c - 1] (step_gradient c j i) (ctx0, a, 0, 0, 0) = Some g"
    and t: "step_prox h (Finite (fst (snd (snd g)))) (Finite (fst (snd (snd (snd g)))))
              (Finite (snd (snd (snd (snd g))))) (Finite (sigma_C c)) = Some t"
    and t': "numbers t = Some t'"
    and d: "for_loop [0..dimZ_C c - 1] (step_dual c j i t' (fst (snd g))) (fst g) = Some (fst s')"
    by (auto simp: s step_pixel_def Let_def bind_defs)
  have ds: "dual_start h c ctx j i = Some (fst g, fst (snd g), t')"
    by (simp add: dual_start_def bp s g t t' case_prod_beta)
  have k: "resprimal_C (fst g) = resprimal_C ctx0 \<and> offY_C (fst g) = offY_C ctx0"
    by (rule for_loop_invariant[OF g, where I = "\<lambda>x. resprimal_C (fst x) = resprimal_C ctx0
          \<and> offY_C (fst x) = offY_C ctx0"])
       (auto dest: step_gradient_resprimal)
  then have "offY_C (fst g) = offY_C ctx" using off by (simp add: s)
  from dual_loop_residual[OF ds d this] show ?thesis using k by (simp add: s)
qed

lemma before_pixel_row:
  assumes "before_pixel h c ctx j 0 = Some r"
  shows "before_pixel h c ctx j x = for_loop [0..x - 1] (\<lambda>i. step_pixel h c j i) r"
  using assms by (auto simp: before_pixel_def bind_defs)

lemma step_row_residual:
  assumes br: "before_pixel h c ctx j 0 = Some r"
    and lp: "for_loop [0..dimX_C c - 1] (\<lambda>i. step_pixel h c j i) r = Some r'"
    and off: "offY_C (fst r) = offY_C ctx"
  shows "resprimal_C (fst r') = resprimal_C (fst r)
           + (\<Sum>i\<leftarrow>[0..dimX_C c - 1]. \<Sum>k\<leftarrow>[0..dimZ_C c - 1].
                if offY_C ctx = 0 \<or> 0 < j then the (primal_term h c ctx j i k) else 0)
         \<and> (\<forall>i. 0 \<le> i \<and> i < dimX_C c \<longrightarrow>
               (\<forall>k. 0 \<le> k \<and> k < dimZ_C c \<longrightarrow> primal_term h c ctx j i k \<noteq> None))"
proof (rule for_loop_upto_sum[OF lp, where f = "\<lambda>x. resprimal_C (fst x)"])
  fix i t u
  assume "0 \<le> i" "i < dimX_C c"
    and t: "for_loop [0..i - 1] (\<lambda>i. step_pixel h c j i) r = Some t"
    and u: "step_pixel h c j i t = Some u"
  have bp: "before_pixel h c ctx j i = Some t"
    using before_pixel_row[OF br, of i] t by simp
  have "offY_C (fst t) = offY_C ctx" using step_pixel_offY[OF t] off by simp
  from step_pixel_residual[OF bp u this]
  show "resprimal_C (fst u) = resprimal_C (fst t)
          + (\<Sum>k\<leftarrow>[0..dimZ_C c - 1].
               if offY_C ctx = 0 \<or> 0 < j then the (primal_term h c ctx j i k) else 0)
        \<and> (\<forall>k. 0 \<le> k \<and> k < dimZ_C c \<longrightarrow> primal_term h c ctx j i k \<noteq> None)" .
qed

lemma rows_offY:
  assumes "for_loop xs (\<lambda>j. for_loop ys (\<lambda>i. step_pixel h c j i)) s = Some s'"
  shows "offY_C (fst s') = offY_C (fst s)"
  by (rule for_loop_invariant[OF assms, where I = "\<lambda>x. offY_C (fst x) = offY_C (fst s)"])
     (auto dest: step_pixel_offY)

text \<open>
  C3, as the code has it. The primal residual a run of \<^verbatim>\<open>tnv_step\<close> stores for a partition is the
  sum, over every row \<open>j\<close>, column \<open>i\<close> and channel \<open>k\<close> of the partition, of the term
  \<open>|u_diff / tau + div_diff|\<close> of the pixel if the partition is the first one (offset 0)
  or the row is not row 0, and of nothing otherwise: the accumulator starts from zero,
  every pixel of every row is visited once, and every term is defined. So every
  row of the first partition counts, its row 0 included, and exactly row 0 of every
  other partition is left out. (The pass over the border regions in \<^verbatim>\<open>TNV_CPU_main\<close>
  accounts for these rows.)
\<close>

theorem C3_primal_residual_rows:
  assumes "tnv_step_thread h c ctx = Some ctx'"
  shows "resprimal_C ctx' =
           (\<Sum>j\<leftarrow>[0..stepY_C ctx - 1]. \<Sum>i\<leftarrow>[0..dimX_C c - 1]. \<Sum>k\<leftarrow>[0..dimZ_C c - 1].
              if offY_C ctx = 0 \<or> 0 < j then the (primal_term h c ctx j i k) else 0)
         \<and> (\<forall>j. 0 \<le> j \<and> j < stepY_C ctx \<longrightarrow>
               (\<forall>i. 0 \<le> i \<and> i < dimX_C c \<longrightarrow>
                  (\<forall>k. 0 \<le> k \<and> k < dimZ_C c \<longrightarrow> primal_term h c ctx j i k \<noteq> None)))"
proof -
  from assms obtain e s' where
    e: "step_entry c ctx = Some e"
    and l: "for_loop [0..stepY_C ctx - 1]
              (\<lambda>j. for_loop [0..dimX_C c - 1] (\<lambda>i. step_pixel h c j i)) e = Some s'"
    and c: "ctx' = fst s'"
    by (auto simp: tnv_step_thread_rows bind_defs)
  have e0: "resprimal_C (fst e) = 0" "offY_C (fst e) = offY_C ctx"
    using step_entry_resprimal[OF e] by simp_all
  have "resprimal_C (fst s') = resprimal_C (fst e)
          + (\<Sum>j\<leftarrow>[0..stepY_C ctx - 1]. \<Sum>i\<leftarrow>[0..dimX_C c - 1]. \<Sum>k\<leftarrow>[0..dimZ_C c - 1].
               if offY_C ctx = 0 \<or> 0 < j then the (primal_term h c ctx j i k) else 0)
        \<and> (\<forall>j. 0 \<le> j \<and> j < stepY_C ctx \<longrightarrow>
               (\<forall>i. 0 \<le> i \<and> i < dimX_C c \<longrightarrow>
                  (\<forall>k. 0 \<le> k \<and> k < dimZ_C c \<longrightarrow> primal_term h c ctx j i k \<noteq> None)))"
  proof (rule for_loop_upto_sum[OF l, where f = "\<lambda>x. resprimal_C (fst x)"])
    fix j t u
    assume "0 \<le> j" "j < stepY_C ctx"
      and t: "for_loop [0..j - 1] (\<lambda>j. for_loop [0..dimX_C c - 1] (\<lambda>i. step_pixel h c j i)) e
                = Some t"
      and u: "for_loop [0..dimX_C c - 1] (\<lambda>i. step_pixel h c j i) t = Some u"
    have br: "before_pixel h c ctx j 0 = Some t"
      by (simp add: before_pixel_def e t)
    have "offY_C (fst t) = offY_C ctx" using rows_offY[OF t] e0 by simp
    from step_row_residual[OF br u this]
    show "resprimal_C (fst u) = resprimal_C (fst t)
            + (\<Sum>i\<leftarrow>[0..dimX_C c - 1]. \<Sum>k\<leftarrow>[0..dimZ_C c - 1].
                 if offY_C ctx = 0 \<or> 0 < j then the (primal_term h c ctx j i k) else 0)
          \<and> (\<forall>i. 0 \<le> i \<and> i < dimX_C c \<longrightarrow>
                (\<forall>k. 0 \<le> k \<and> k < dimZ_C c \<longrightarrow> primal_term h c ctx j i k \<noteq> None))" .
  qed
  then show ?thesis using e0 c by simp
qed

lemmas sample_step_defs = ramp_context_def flat_memory_def flat_entry_def

lemmas residual_defs = primal_term_def before_channel_def dual_start_def before_pixel_def
  step_entry_def

text \<open>
  On the only partition of the sample input (offset 0, two rows) the terms of the rows 0
  and 1 are both \<open>|0 / tau + (0 - 1)| = 1\<close>, and the residual is their sum 2. On the
  second of two one-row partitions of the constant volume (offset 1) the term of row 0
  is \<open>|(- 1/5) / (1/2) + 0| = 2/5\<close>; it is left out and the residual is 0.
\<close>

theorem C3_primal_residual_rows_witness:
  "(offY_C ramp_partition, stepY_C ramp_partition, dimX_C ramp_context, dimZ_C ramp_context)
     = (0, 2, 1, 1)
   \<and> primal_term sample_consts ramp_context ramp_partition 0 0 0 = Some 1
   \<and> primal_term sample_consts ramp_context ramp_partition 1 0 0 = Some 1
   \<and> map_option resprimal_C (tnv_step_thread sample_consts ramp_context ramp_partition) = Some 2
   \<and> (offY_C flat_entry, stepY_C flat_entry) = (1, 1)
   \<and> primal_term sample_consts ramp_context flat_entry 0 0 0 = Some (2 / 5)
   \<and> map_option resprimal_C (tnv_step_thread sample_consts ramp_context flat_entry) = Some 0"
proof -
  have g: "(offY_C ramp_partition, stepY_C ramp_partition, dimX_C ramp_context,
            dimZ_C ramp_context) = (0, 2, 1, 1)"
          "(offY_C flat_entry, stepY_C flat_entry) = (1, 1)"
    by (simp_all add: ramp_partition_def ramp_context_def ingested_process_def flat_entry_def)
  have t0: "primal_term sample_consts ramp_context ramp_partition 0 0 0 = Some 1"
    by (simp add: residual_defs solve_defs sample_step_defs ramp_partition_def
        ingested_process_def cong: eval_cong)
  have t1: "primal_term sample_consts ramp_context ramp_partition 1 0 0 = Some 1"
    by (simp add: residual_defs solve_defs sample_step_defs ramp_partition_def
        ingested_process_def cong: eval_cong)
  have f0: "primal_term sample_consts ramp_context flat_entry 0 0 0 = Some (2 / 5)"
    by (simp add: residual_defs solve_defs sample_step_defs ingested_process_def
        ramp_partition_def cong: eval_cong)
  have "\<exists>ctx'. tnv_step_thread sample_consts ramp_context ramp_partition = Some ctx'"
    by (simp add: solve_defs sample_step_defs ramp_partition_def ingested_process_def
        cong: eval_cong)
  then obtain ctx' where r: "tnv_step_thread sample_consts ramp_context ramp_partition = Some ctx'"
    by blast
  have "\<exists>ctx'. tnv_step_thread sample_consts ramp_context flat_entry = Some ctx'"
    by (simp add: solve_defs sample_step_defs ramp_partition_def ingested_process_def
        cong: eval_cong)
  then obtain ctx'' where f: "tnv_step_thread sample_consts ramp_context flat_entry = Some ctx''"
    by blast
  have l: "[0..(1::int)] = [0, 1]" "[0..(0::int)] = [0]"
    by (simp_all add: upto.simps)
  from C3_primal_residual_rows[OF r] have "resprimal_C ctx' = 2"
    using g t0 t1 by (simp add: l)
  moreover from C3_primal_residual_rows[OF f] have "resprimal_C ctx'' = 0"
    using g by (simp add: l)
  ultimately show ?thesis using g t0 t1 f0 r f by simp
qed

text \<open>
  The claim as the specification words it (everything counts but row 0 of the first
  partition) fails: line 427 counts row 0 of the partition at offset 0 and leaves out
  row 0 of the others. One iteration on the constant volume \<open>(1, 1)\<close> with a zero
  estimate and two processors gives two one-row partitions whose pixels are alike
  (\<^verbatim>\<open>unorm\<close> is \<open>1/25\<close> in both); the first reports the primal residual \<open>2/5\<close>, the
  second 0.
\<close>

theorem C3_counterexample:
  "\<not> (\<forall>offY j. 0 \<le> j \<longrightarrow> (resprimal_counted offY j \<longleftrightarrow> \<not> (offY = 0 \<and> j = 0)))
   \<and> map_option (\<lambda>(iter, p, v, r).
         (map offY_C (thr_ctx_C (tnv_ctx p)), map resprimal_C (thr_ctx_C (tnv_ctx p)),
          map unorm_C (thr_ctx_C (tnv_ctx p))))
        (TNV_CPU_solve sample_consts two_cpus 0 10 1 1 0 1 2 1 (fresh_process\<lparr>mem := flat_memory\<rparr>))
      = Some ([0, 1], [2 / 5, 0], [1 / 25, 1 / 25])"
proof -
  have "resprimal_counted 0 0" by (simp add: resprimal_counted_def)
  then have "\<not> (\<forall>offY j. 0 \<le> j \<longrightarrow> (resprimal_counted offY j \<longleftrightarrow> \<not> (offY = 0 \<and> j = 0)))"
    by (metis order_refl)
  moreover have "map_option (\<lambda>(iter, p, v, r).
         (map offY_C (thr_ctx_C (tnv_ctx p)), map resprimal_C (thr_ctx_C (tnv_ctx p)),
          map unorm_C (thr_ctx_C (tnv_ctx p))))
        (TNV_CPU_solve sample_consts two_cpus 0 10 1 1 0 1 2 1 (fresh_process\<lparr>mem := flat_memory\<rparr>))
      = Some ([0, 1], [2 / 5, 0], [1 / 25, 1 / 25])"
    by (simp add: solve_defs sample_step_defs cong: eval_cong)
  ultimately show ?thesis by blast
qed

section \<open>The balance ratio is a number\<close>

text \<open>
  In C the quotient of line 594 is infinite when its divisor is zero and its dividend
  is not. This does not happen: the divisor is a sum of squares weighted by the
  positive step sizes, and when it is zero, every term of \<^verbatim>\<open>product\<close> is zero too.
\<close>

lemma step_dual_norms:
  assumes "step_dual c j i t a k ctx = Some ctx'"
    and "norms_sound (product_C ctx) (unorm_C ctx) (qnorm_C ctx)"
  shows "norms_sound (product_C ctx') (unorm_C ctx') (qnorm_C ctx')"
proof -
  obtain t0 t1 t2 where t: "t = (t0, t1, t2)" by (cases t)
  from assms(1) obtain udiff qxdiff qydiff gxd gyd where
    u: "unorm_C ctx' = unorm_C ctx + (udiff * udiff)"
    and q: "qnorm_C ctx' = qnorm_C ctx + (qxdiff * qxdiff + qydiff * qydiff)"
    and p: "product_C ctx' = product_C ctx - (gxd * qxdiff + gyd * qydiff)"
    by (auto simp: t step_dual_def Let_def bind_defs)
  have sq: "0 \<le> qxdiff * qxdiff" "0 \<le> qydiff * qydiff" "0 \<le> udiff * udiff" by simp_all
  have "product_C ctx' = 0" if z: "qnorm_C ctx' = 0"
  proof -
    from z q sq assms(2) have "qnorm_C ctx = 0" "qxdiff * qxdiff = 0" "qydiff * qydiff = 0"
      unfolding norms_sound_def by linarith+
    then show ?thesis using p assms(2) by (simp add: norms_sound_def)
  qed
  then show ?thesis using u q sq assms(2) by (simp add: norms_sound_def)
qed

lemma step_gradient_norms:
  "step_gradient c j i k s = Some s' \<Longrightarrow>
     product_C (fst s') = product_C (fst s) \<and> unorm_C (fst s') = unorm_C (fst s)
     \<and> qnorm_C (fst s') = qnorm_C (fst s)"
  by (cases s) (auto simp: step_gradient_def Let_def bind_defs)

lemma step_first_row_norms:
  "step_first_row c i k ctx = Some ctx' \<Longrightarrow>
     product_C ctx' = product_C ctx \<and> unorm_C ctx' = unorm_C ctx \<and> qnorm_C ctx' = qnorm_C ctx"
  by (auto simp: step_first_row_def Let_def bind_defs)

lemma step_pixel_norms:
  assumes "step_pixel h c j i s = Some s'"
    and "norms_sound (product_C (fst s)) (unorm_C (fst s)) (qnorm_C (fst s))"
  shows "norms_sound (product_C (fst s')) (unorm_C (fst s')) (qnorm_C (fst s'))"
proof -
  obtain ctx a where s: "s = (ctx, a)" by (cases s)
  from assms(1) obtain g t where
    g: "for_loop [0..dimZ_C c - 1] (step_gradient c j i) (ctx, a, 0, 0, 0) = Some g"
    and d: "for_loop [0..dimZ_C c - 1] (step_dual c j i t (fst (snd g))) (fst g) = Some (fst s')"
    by (auto simp: s step_pixel_def Let_def bind_defs)
  have "product_C (fst g) = product_C ctx \<and> unorm_C (fst g) = unorm_C ctx
     \<and> qnorm_C (fst g) = qnorm_C ctx"
    by (rule for_loop_invariant[OF g, where I = "\<lambda>x. product_C (fst x) = product_C ctx
          \<and> unorm_C (fst x) = unorm_C ctx \<and> qnorm_C (fst x) = qnorm_C ctx"])
       (auto dest: step_gradient_norms)
  then have "norms_sound (product_C (fst g)) (unorm_C (fst g)) (qnorm_C (fst g))"
    using assms(2) by (simp add: s)
  then show ?thesis
    by (rule for_loop_invariant[OF d,
          where I = "\<lambda>x. norms_sound (product_C x) (unorm_C x) (qnorm_C x)"])
       (rule step_dual_norms)
qed

lemma tnv_step_thread_norms:
  assumes "tnv_step_thread h c ctx = Some ctx'"
  shows "norms_sound (product_C ctx') (unorm_C ctx') (qnorm_C ctx')"
proof -
  define ctx0 where "ctx0 = ctx\<lparr>resprimal_C := 0, resdual_C := 0, product_C := 0, unorm_C := 0,
                                 qnorm_C := 0\<rparr>"
  from assms obtain ctx1 a a2 where
    f: "for_loop [0..dimX_C c - 1] (\<lambda>i. for_loop [0..dimZ_C c - 1] (\<lambda>k. step_first_row c i k))
              ctx0 = Some ctx1"
    and l: "for_loop [0..stepY_C ctx - 1] (\<lambda>j. for_loop [0..dimX_C c - 1] (\<lambda>i. step_pixel h c j i))
              (ctx1, a) = Some (ctx', a2)"
    by (auto simp: tnv_step_thread_def Let_def bind_defs ctx0_def split: if_splits)
  have "product_C ctx1 = 0 \<and> unorm_C ctx1 = 0 \<and> qnorm_C ctx1 = 0"
    by (rule for_loop_invariant[OF f, where I = "\<lambda>x. product_C x = 0 \<and> unorm_C x = 0
          \<and> qnorm_C x = 0"], simp add: ctx0_def)
       (erule for_loop_invariant, assumption, simp add: step_first_row_norms)
  then have "norms_sound (product_C (fst (ctx1, a))) (unorm_C (fst (ctx1, a)))
               (qnorm_C (fst (ctx1, a)))"
    by (simp add: norms_sound_def)
  then have "norms_sound (product_C (fst (ctx', a2))) (unorm_C (fst (ctx', a2)))
               (qnorm_C (fst (ctx', a2)))"
    by (rule for_loop_invariant[OF l,
          where I = "\<lambda>x. norms_sound (product_C (fst x)) (unorm_C (fst x)) (qnorm_C (fst x))"])
       (erule for_loop_invariant, assumption, erule step_pixel_norms, assumption)
  then show ?thesis by simp
qed

subsection \<open>After \<^verbatim>\<open>tnv_step\<close> has run on every partition\<close>

lemma tnv_step_sound:
  assumes "tnv_step h p d = Some p'"
  shows "0 \<le> d \<and> d < int (length (thr_ctx_C (tnv_ctx p)))
         \<and> (\<exists>t. partition_sound t
                \<and> thr_ctx_C (tnv_ctx p') = (thr_ctx_C (tnv_ctx p))[nat d := t])"
  using assms
  by (auto simp: tnv_step_def on_thread_def Let_def partition_sound_def
           dest: tnv_step_thread_norms split: if_splits option.splits)

lemma step_loop_sound:
  "for_loop [0..int k - 1] (\<lambda>d q. tnv_step h q d) p = Some p' \<Longrightarrow>
     length (thr_ctx_C (tnv_ctx p')) = length (thr_ctx_C (tnv_ctx p))
     \<and> (\<forall>i<k. partition_sound (thr_ctx_C (tnv_ctx p') ! i))"
proof (induction k arbitrary: p')
  case 0
  then show ?case by simp
next
  case (Suc k)
  have "[0..int (Suc k) - 1] = [0..int k - 1] @ [int k]"
    using upto_snoc[of "int k"] by simp
  with Suc.prems obtain pm where
    m: "for_loop [0..int k - 1] (\<lambda>d q. tnv_step h q d) p = Some pm"
    and l: "tnv_step h pm (int k) = Some p'"
    by (auto simp: for_loop_append split: option.splits)
  from Suc.IH[OF m] have
    len: "length (thr_ctx_C (tnv_ctx pm)) = length (thr_ctx_C (tnv_ctx p))"
    and snd: "\<forall>i<k. partition_sound (thr_ctx_C (tnv_ctx pm) ! i)"
    by simp_all
  from tnv_step_sound[OF l] obtain t where
    k: "k < length (thr_ctx_C (tnv_ctx pm))" and t: "partition_sound t"
    and p': "thr_ctx_C (tnv_ctx p') = (thr_ctx_C (tnv_ctx pm))[k := t]"
    by auto
  have "partition_sound (thr_ctx_C (tnv_ctx p') ! i)" if "i < Suc k" for i
  proof (cases "i = k")
    case True
    then show ?thesis using k t by (simp add: p')
  next
    case False
    then have "i < k" using that by simp
    then show ?thesis using snd False by (simp add: p')
  qed
  then show ?case using len by (simp add: p')
qed

lemma schedule_step_sound:
  assumes "schedule Tnv_step (tnv_step h) p = Some p'" and "sched p = Some n"
    and "0 \<le> j" and "j < n"
  shows "partition_sound (thr_ctx_C (tnv_ctx p') ! nat j)"
proof -
  have n: "int (nat n) = n" using assms(3,4) by simp
  from assms(1,2) have
    "for_loop [0..n - 1] (\<lambda>d q. tnv_step h q d) (p\<lparr>trace := trace p @ [Scheduled Tnv_step]\<rparr>)
       = Some p'"
    by (simp add: schedule_def)
  then have
    "for_loop [0..int (nat n) - 1] (\<lambda>d q. tnv_step h q d) (p\<lparr>trace := trace p @ [Scheduled Tnv_step]\<rparr>)
       = Some p'"
    unfolding n .
  from step_loop_sound[OF this] show ?thesis using assms(3,4) by simp
qed

subsection \<open>The border regions and the sums\<close>

lemma map_update_same:
  assumes "map f ys = map f xs" and "n < length xs" and "f x = f (xs ! n)"
  shows "map f (ys[n := x]) = map f xs"
proof -
  have "map f (ys[n := x]) = (map f xs)[n := map f xs ! n]"
    using assms by (simp add: map_update)
  then show ?thesis by simp
qed

lemma border_cell_sound:
  assumes "border_cell dx pz divtau j i k s = Some s'"
  shows "map partition_sound (fst s') = map partition_sound (fst s)"
proof -
  obtain ths r where s: "s = (ths, r)" by (cases s)
  from assms obtain b b0 where j: "1 \<le> j" "j < int (length ths)"
    and s': "fst s' = ths[nat (j - 1) := (ths ! nat (j - 1))\<lparr>div_C := b0\<rparr>,
                         nat j := (ths ! nat j)\<lparr>div_C := b\<rparr>]"
    by (auto simp: s border_cell_def Let_def bind_defs split: if_splits)
  have "map partition_sound (ths[nat (j - 1) := (ths ! nat (j - 1))\<lparr>div_C := b0\<rparr>])
          = map partition_sound ths"
    using j by (intro map_update_same) (simp_all add: partition_sound_def)
  then show ?thesis
    unfolding s' s fst_conv using j by (intro map_update_same) (simp_all add: partition_sound_def)
qed

lemma border_regions_sound:
  assumes "border_regions dx dz divtau c r = Some s'"
  shows "map partition_sound (fst s') = map partition_sound (thr_ctx_C c)"
  by (rule for_loop_invariant[OF assms[unfolded border_regions_def],
        where I = "\<lambda>x. map partition_sound (fst x) = map partition_sound (thr_ctx_C c)"], simp)
     (erule for_loop_invariant, assumption, erule for_loop_invariant, assumption,
      simp add: border_cell_sound)

lemma norms_sound_add:
  assumes "norms_sound p u q" and "norms_sound p' u' q'"
  shows "norms_sound (p + p') (u + u') (q + q')"
  using assms unfolding norms_sound_def by (auto simp: add_nonneg_eq_0_iff)

lemma sum_partition_sound:
  assumes "for_loop [0..m - 1] (sum_partition ths) (r0, 0, 0, 0, 0) = Some (rp, rdl, pr, un, qn)"
    and "\<And>j. 0 \<le> j \<Longrightarrow> j < m \<Longrightarrow> j < int (length ths) \<Longrightarrow> partition_sound (ths ! nat j)"
  shows "norms_sound pr un qn"
proof -
  have "case (rp, rdl, pr, un, qn) of (rp, rdl, pr, un, qn) \<Rightarrow> norms_sound pr un qn"
  proof (rule for_loop_invariant[OF assms(1)])
    show "case (r0, 0, 0, 0, 0) of (rp, rdl, pr, un, qn) \<Rightarrow> norms_sound pr un (qn :: real)"
      by (simp add: norms_sound_def)
  next
    fix i and t t' :: "real \<times> real \<times> real \<times> real \<times> real"
    assume i: "i \<in> set [0..m - 1]"
      and t: "case t of (rp, rdl, pr, un, qn) \<Rightarrow> norms_sound pr un qn"
      and s: "sum_partition ths i t = Some t'"
    obtain a b c d e where t_eq: "t = (a, b, c, d, e)" by (cases t)
    from s have il: "i < int (length ths)"
      and t': "t' = (a + resprimal_C (ths ! nat i), b + resdual_C (ths ! nat i),
                     c + product_C (ths ! nat i), d + unorm_C (ths ! nat i),
                     e + qnorm_C (ths ! nat i))"
      by (auto simp: sum_partition_def t_eq Let_def split: if_splits)
    from i il have "partition_sound (ths ! nat i)" by (intro assms(2)) simp_all
    then show "case t' of (rp, rdl, pr, un, qn) \<Rightarrow> norms_sound pr un qn"
      using t by (simp add: t' t_eq partition_sound_def norms_sound_add)
  qed
  then show ?thesis by simp
qed

lemma pdhg_statistics_sound:
  assumes "pdhg_statistics h dx dz tau sigma p = Some (p', rp, rdl, pr, un, qn)"
    and "pool_matches p"
  shows "norms_sound pr un qn"
proof -
  define p1 where "p1 = p\<lparr>tnv_ctx := (tnv_ctx p)\<lparr>sigma_C := sigma, tau_C := tau, theta_C := 1\<rparr>\<rparr>"
  from assms(1) obtain p2 b where
    s: "schedule Tnv_step (tnv_step h) p1 = Some p2"
    and b: "border_regions dx dz (1 / tau) (tnv_ctx p2) 0 = Some b"
    and l: "for_loop [0..threads_C (tnv_ctx p2) - 1] (sum_partition (fst b)) (snd b, 0, 0, 0, 0)
              = Some (rp, rdl, pr, un, qn)"
    by (auto simp: pdhg_statistics_def Let_def bind_defs p1_def)
  have "layout p2 = layout p1"
    using schedule_keeps[OF s] tnv_step_keeps by blast
  then have th: "threads_C (tnv_ctx p2) = threads_C (tnv_ctx p)"
    by (simp add: layout_def p1_def)
  have n: "sched p1 = Some (threads_C (tnv_ctx p))"
    using assms(2) by (simp add: pool_matches_def p1_def)
  have m: "map partition_sound (fst b) = map partition_sound (thr_ctx_C (tnv_ctx p2))"
    by (rule border_regions_sound[OF b])
  show ?thesis
  proof (rule sum_partition_sound[OF l])
    fix j assume j: "0 \<le> j" "j < threads_C (tnv_ctx p2)" "j < int (length (fst b))"
    have "partition_sound (thr_ctx_C (tnv_ctx p2) ! nat j)"
      using schedule_step_sound[OF s n j(1)] j(2) th by simp
    moreover have "nat j < length (fst b)" using j by simp
    then have "partition_sound (fst b ! nat j) = partition_sound (thr_ctx_C (tnv_ctx p2) ! nat j)"
      using m by (metis length_map nth_map)
    ultimately show "partition_sound (fst b ! nat j)" by simp
  qed
qed

subsection \<open>The quotient\<close>

text \<open>
  When the step sizes are positive and the pool has a worker for each partition, the
  divisor of line 594 is zero only if the dividend is: the C quotient is then a NaN,
  never an infinity, and the test \<open>b > 1\<close> goes as it does in \<^const>\<open>step_size_controller\<close>.
\<close>

lemma balance_divisor:
  assumes "pdhg_statistics h dx dz tau sigma p = Some (p', rp, rdl, pr, un, qn)"
    and "pool_matches p" and "0 < tau" and "0 < sigma"
    and "75 / 100 * sigma * un + 75 / 100 * tau * qn = 0"
  shows "2 * tau * sigma * pr = 0"
proof -
  from pdhg_statistics_sound[OF assms(1,2)] have
    s: "0 \<le> un" "0 \<le> qn" "qn = 0 \<longrightarrow> pr = 0"
    by (simp_all add: norms_sound_def)
  have "0 \<le> 75 / 100 * sigma * un" "0 \<le> 75 / 100 * tau * qn"
    using s assms(3,4) by simp_all
  with assms(5) have "75 / 100 * tau * qn = 0" by linarith
  then have "qn = 0" using assms(3) by simp
  then show ?thesis using s(3) by simp
qed

text \<open>
  Every pass of the loop of a solve starts from such a state: a pass hands on positive
  step sizes, an adaptation rate between 0 and 1 and the pool it found.
\<close>

lemma step_size_controller_positive:
  assumes "steps_positive v"
  shows "steps_positive (fst (step_size_controller v b rp rdl))"
proof -
  obtain tau sigma alpha started where v: "v = (tau, sigma, alpha, started)"
    by (cases v)
  from assms have a: "0 < tau" "0 < sigma" "0 < alpha" "alpha < 1"
    by (simp_all add: v steps_positive_def)
  then have "0 < 1 - alpha" by simp
  then show ?thesis using a
    by (simp add: v step_size_controller_def steps_positive_def Let_def)
qed

lemma pdhg_iteration_sound:
  assumes "pdhg_iteration h dx dy dz (p, v, r) = Some (p', v', r')"
    and "pool_matches p" and "steps_positive v"
  shows "pool_matches p' \<and> steps_positive v'"
proof -
  obtain tau sigma alpha started where v: "v = (tau, sigma, alpha, started)"
    by (cases v)
  note it = assms(1)[unfolded v]
  have "layout p' = layout p" using pdhg_iteration_keeps[OF it] by simp
  then have "pool_matches p'" using assms(2) by (simp add: pool_matches_def layout_def)
  moreover from pdhg_iteration_parts[OF it] obtain b rp rdl where
    "v' = fst (step_size_controller v b rp rdl)"
    unfolding v by blast
  then have "steps_positive v'"
    using step_size_controller_positive[OF assms(3)] by simp
  ultimately show ?thesis by simp
qed

lemma TNV_CPU_init_pool:
  assumes "TNV_CPU_init env InputT uT dx dy dz p = Some p'"
    and "sched p = None \<or> pool_matches p"
  shows "pool_matches p'"
proof (cases "sched p = None")
  case True
  from TNV_CPU_init_fresh[OF True assms(1)] show ?thesis by (simp add: pool_matches_def)
next
  case False
  then have "p' = p" using assms(1) by (simp add: TNV_CPU_init_def)
  then show ?thesis using assms(2) False by simp
qed

text \<open>
  The loop of a solve starts from such a state, whether the call sets the process up or
  finds it set up by an earlier call.
\<close>

lemma TNV_CPU_solve_starts_sound:
  assumes "TNV_CPU_solve h env InputT uT lam maxIter tol dx dy dz p = Some (iter, p6, v, r)"
    and "sched p = None \<or> pool_matches p"
  shows "\<exists>p4 p5. pool_matches p4 \<and> steps_positive (5 / 10, 5 / 10, 2 / 10, 0)
         \<and> pdhg_loop h tol dx dy dz (nat maxIter) 0 (p4, (5 / 10, 5 / 10, 2 / 10, 0), fLarge h)
             = Some (iter, p5, v, r)"
proof -
  define p1 where "p1 = p\<lparr>tnv_ctx := (tnv_ctx p)\<lparr>lambda_C := 1 / (2 * lam)\<rparr>\<rparr>"
  from TNV_CPU_solve_phases[OF assms(1)] obtain p2 p4 p5 where
    i: "TNV_CPU_init env InputT uT dx dy dz p1 = Some p2"
    and s: "schedule Tnv_start tnv_start (p2\<lparr>tnv_ctx := (tnv_ctx p2)\<lparr>InputT_C := InputT, uT_C := uT\<rparr>\<rparr>)
              = Some p4"
    and l: "pdhg_loop h tol dx dy dz (nat maxIter) 0 (p4, (5 / 10, 5 / 10, 2 / 10, 0), fLarge h)
              = Some (iter, p5, v, r)"
    unfolding p1_def by blast
  have "sched p1 = None \<or> pool_matches p1"
    using assms(2) by (simp add: p1_def pool_matches_def)
  then have "pool_matches p2" by (rule TNV_CPU_init_pool[OF i])
  moreover have "layout p4 = layout (p2\<lparr>tnv_ctx := (tnv_ctx p2)\<lparr>InputT_C := InputT, uT_C := uT\<rparr>\<rparr>)"
    using schedule_keeps[OF s] tnv_start_keeps by blast
  ultimately have "pool_matches p4" by (simp add: pool_matches_def layout_def)
  moreover have "steps_positive (5 / 10, 5 / 10, 2 / 10, 0)" by (simp add: steps_positive_def)
  ultimately show ?thesis using l by blast
qed

end
